theory Spec2Isabelle
  imports Main
begin

section \<open>JavaScript values used by the application\<close>

text \<open>
  A JavaScript string is a sequence of UTF-16 code units; it is modelled as the list of
  its code units. \<open>js\<close> turns an ASCII literal into such a list.
\<close>

type_synonym jsstring = "nat list"

definition js :: "string \<Rightarrow> jsstring" where
  "js s = map of_char s"

text \<open>
  The numbers the application computes with are time values and mood scores: integers, or
  \<open>NaN\<close> (the time value of an invalid \<open>Date\<close>). Integers are kept exact; this agrees
  with binary64 below \<open>2^53\<close>, which covers every time value (at most \<open>8.64 * 10^15\<close>
  in magnitude).
\<close>

datatype jsnum = NaN | Num int

text \<open>Subtraction of numbers: \<open>NaN\<close> is absorbing.\<close>

fun jsminus :: "jsnum \<Rightarrow> jsnum \<Rightarrow> jsnum" where
  "jsminus (Num a) (Num b) = Num (a - b)"
| "jsminus _ _ = NaN"

text \<open>The relational operator \<open>>=\<close>: false as soon as one side is \<open>NaN\<close>.\<close>

fun jsge :: "jsnum \<Rightarrow> jsnum \<Rightarrow> bool" where
  "jsge (Num a) (Num b) = (b \<le> a)"
| "jsge _ _ = False"

fun jslt :: "jsnum \<Rightarrow> jsnum \<Rightarrow> bool" where
  "jslt (Num a) (Num b) = (a < b)"
| "jslt _ _ = False"

text \<open>\<open>ToNumber\<close> of a value that may be \<open>undefined\<close> (\<open>None\<close>): \<open>undefined\<close> gives \<open>NaN\<close>.\<close>

fun ToNumber :: "jsnum option \<Rightarrow> jsnum" where
  "ToNumber None = NaN"
| "ToNumber (Some n) = n"

subsection \<open>String.prototype.trim, String.prototype.split, Number\<close>

text \<open>White space and line terminators of ECMAScript, as code units.\<close>

definition isWhiteSpace :: "nat \<Rightarrow> bool" where
  "isWhiteSpace c =
     (c = 9 \<or> c = 10 \<or> c = 11 \<or> c = 12 \<or> c = 13 \<or> c = 32 \<or> c = 160 \<or> c = 5760
      \<or> (8192 \<le> c \<and> c \<le> 8202) \<or> c = 8232 \<or> c = 8233 \<or> c = 8239 \<or> c = 8287
      \<or> c = 12288 \<or> c = 65279)"

definition trim :: "jsstring \<Rightarrow> jsstring" where
  "trim s = rev (dropWhile isWhiteSpace (rev (dropWhile isWhiteSpace s)))"

text \<open>\<open>s.split('-')\<close>: the pieces between the separators; never the empty array.\<close>

fun split_acc :: "nat \<Rightarrow> jsstring \<Rightarrow> jsstring \<Rightarrow> jsstring list" where
  "split_acc sep cur [] = [rev cur]"
| "split_acc sep cur (c # cs) =
     (if c = sep then rev cur # split_acc sep [] cs else split_acc sep (c # cur) cs)"

definition split :: "jsstring \<Rightarrow> nat \<Rightarrow> jsstring list" where
  "split s sep = split_acc sep [] s"

definition isDigit :: "nat \<Rightarrow> bool" where
  "isDigit c = (48 \<le> c \<and> c \<le> 57)"

definition decimal_value :: "jsstring \<Rightarrow> int" where
  "decimal_value ds = foldl (\<lambda>acc c. 10 * acc + (int c - 48)) 0 ds"

text \<open>
  \<open>Number(s)\<close> on a string: surrounding white space is dropped, the empty string is 0, a run
  of decimal digits is its value. The pieces of a date field are of these two forms (or
  arbitrary text, which is \<open>NaN\<close>); the other numeric literal forms of ECMAScript (sign,
  fraction, exponent, radix prefix, \<open>Infinity\<close>) are not modelled and come out as \<open>NaN\<close> here.
\<close>

definition Number :: "jsstring \<Rightarrow> jsnum" where
  "Number s =
     (let t = trim s in
      if t = [] then Num 0
      else if list_all isDigit t then Num (decimal_value t)
      else NaN)"

text \<open>Reading position \<open>i\<close> of an array in a destructuring pattern: \<open>undefined\<close> past the end.\<close>

definition element :: "'a list \<Rightarrow> nat \<Rightarrow> 'a option" where
  "element xs i = (if i < length xs then Some (xs ! i) else None)"

subsection \<open>Number.prototype.toString\<close>

fun digits_of :: "nat \<Rightarrow> jsstring" where
  "digits_of n = (if n < 10 then [48 + n] else digits_of (n div 10) @ [48 + n mod 10])"

declare digits_of.simps [simp del]

text \<open>Decimal notation of an integer (exact below \<open>10^21\<close>, where JavaScript does not yet
  switch to exponent notation).\<close>

definition toString :: "int \<Rightarrow> jsstring" where
  "toString n = (if n < 0 then 45 # digits_of (nat (- n)) else digits_of (nat n))"

section \<open>The tag selection (App.tsx, toggleTag)\<close>

definition toggleTag :: "jsstring list \<Rightarrow> jsstring \<Rightarrow> jsstring list" where
  "toggleTag selectedTags tagLabel =
     (if tagLabel \<in> set selectedTags then filter (\<lambda>t. t \<noteq> tagLabel) selectedTags
      else if length selectedTags < 3 then selectedTags @ [tagLabel]
      else selectedTags)"

section \<open>Dates\<close>

text \<open>
  A \<open>Date\<close> object is represented by its time value: milliseconds since the epoch, or
  \<open>NaN\<close> for an invalid date. The functions below are the abstract operations of the
  ECMAScript standard (section "Date Objects"), under their names there. Local time is
  taken to be UTC: the application builds dates from local fields and reads their local
  fields back, so a fixed offset cancels.
\<close>

definition msPerDay :: int where
  "msPerDay = 86400000"

definition Day :: "int \<Rightarrow> int" where
  "Day t = t div msPerDay"

definition DaysInYear :: "int \<Rightarrow> int" where
  "DaysInYear y =
     (if y mod 4 \<noteq> 0 then 365 else if y mod 100 \<noteq> 0 then 366
      else if y mod 400 \<noteq> 0 then 365 else 366)"

definition DayFromYear :: "int \<Rightarrow> int" where
  "DayFromYear y =
     365 * (y - 1970) + (y - 1969) div 4 - (y - 1901) div 100 + (y - 1601) div 400"

text \<open>
  The standard defines the year of a time value as the largest \<open>y\<close> whose first day is
  not after it. Here it is computed from an estimate that is off by at most one
  (\<open>YearFromDay_spec\<close> below proves that the result is that year).
\<close>

definition YearFromDay :: "int \<Rightarrow> int" where
  "YearFromDay d =
     (let y = 1970 + (400 * d) div 146097 in
      if d < DayFromYear y then y - 1
      else if DayFromYear (y + 1) \<le> d then y + 1
      else y)"

definition YearFromTime :: "int \<Rightarrow> int" where
  "YearFromTime t = YearFromDay (Day t)"

definition DayWithinYear :: "int \<Rightarrow> int" where
  "DayWithinYear t = Day t - DayFromYear (YearFromTime t)"

definition InLeapYear :: "int \<Rightarrow> int" where
  "InLeapYear t = (if DaysInYear (YearFromTime t) = 366 then 1 else 0)"

definition MonthFromTime :: "int \<Rightarrow> int" where
  "MonthFromTime t =
     (let d = DayWithinYear t; l = InLeapYear t in
      if d < 31 then 0
      else if d < 59 + l then 1
      else if d < 90 + l then 2
      else if d < 120 + l then 3
      else if d < 151 + l then 4
      else if d < 181 + l then 5
      else if d < 212 + l then 6
      else if d < 243 + l then 7
      else if d < 273 + l then 8
      else if d < 304 + l then 9
      else if d < 334 + l then 10
      else 11)"

definition DateFromTime :: "int \<Rightarrow> int" where
  "DateFromTime t =
     (let d = DayWithinYear t; l = InLeapYear t; m = MonthFromTime t in
      if m = 0 then d + 1
      else if m = 1 then d - 30
      else if m = 2 then d - 58 - l
      else if m = 3 then d - 89 - l
      else if m = 4 then d - 119 - l
      else if m = 5 then d - 150 - l
      else if m = 6 then d - 180 - l
      else if m = 7 then d - 211 - l
      else if m = 8 then d - 242 - l
      else if m = 9 then d - 272 - l
      else if m = 10 then d - 303 - l
      else d - 333 - l)"

definition WeekDay :: "int \<Rightarrow> int" where
  "WeekDay t = (Day t + 4) mod 7"

text \<open>The day within its year on which month \<open>mn\<close> (0 to 11) starts; \<open>l\<close> is 1 in a leap year.\<close>

definition monthStart :: "int \<Rightarrow> int \<Rightarrow> int" where
  "monthStart l mn =
     (if mn = 0 then 0
      else if mn = 1 then 31
      else if mn = 2 then 59 + l
      else if mn = 3 then 90 + l
      else if mn = 4 then 120 + l
      else if mn = 5 then 151 + l
      else if mn = 6 then 181 + l
      else if mn = 7 then 212 + l
      else if mn = 8 then 243 + l
      else if mn = 9 then 273 + l
      else if mn = 10 then 304 + l
      else 334 + l)"

text \<open>
  \<open>MakeDay\<close>: months outside 0 to 11 carry into the year, and the day of the month counts
  on from the first of that month (day 0 is the last day of the month before).
\<close>

definition MakeDay :: "int \<Rightarrow> int \<Rightarrow> int \<Rightarrow> int" where
  "MakeDay year month date =
     (let ym = year + month div 12; mn = month mod 12 in
      DayFromYear ym + monthStart (if DaysInYear ym = 366 then 1 else 0) mn + date - 1)"

definition MakeFullYear :: "int \<Rightarrow> int" where
  "MakeFullYear y = (if 0 \<le> y \<and> y \<le> 99 then 1900 + y else y)"

definition TimeClip :: "int \<Rightarrow> jsnum" where
  "TimeClip t = (if 8640000000000000 < \<bar>t\<bar> then NaN else Num t)"

text \<open>
  \<open>new Date(year, month, date)\<close>: invalid as soon as one argument is \<open>NaN\<close>; a year from 0
  to 99 means 1900 + year.
\<close>

fun Date_of_fields :: "jsnum \<Rightarrow> jsnum \<Rightarrow> jsnum \<Rightarrow> jsnum" where
  "Date_of_fields (Num y) (Num m) (Num d) = TimeClip (MakeDay (MakeFullYear y) m d * msPerDay)"
| "Date_of_fields _ _ _ = NaN"

text \<open>\<open>new Date(value)\<close> for a number.\<close>

fun Date_of_number :: "jsnum \<Rightarrow> jsnum" where
  "Date_of_number (Num t) = TimeClip t"
| "Date_of_number NaN = NaN"

fun getFullYear :: "jsnum \<Rightarrow> jsnum" where
  "getFullYear (Num t) = Num (YearFromTime t)"
| "getFullYear NaN = NaN"

fun getMonth :: "jsnum \<Rightarrow> jsnum" where
  "getMonth (Num t) = Num (MonthFromTime t)"
| "getMonth NaN = NaN"

fun getDate :: "jsnum \<Rightarrow> jsnum" where
  "getDate (Num t) = Num (DateFromTime t)"
| "getDate NaN = NaN"

fun getDay :: "jsnum \<Rightarrow> jsnum" where
  "getDay (Num t) = Num (WeekDay t)"
| "getDay NaN = NaN"

fun jsplus :: "jsnum \<Rightarrow> jsnum \<Rightarrow> jsnum" where
  "jsplus (Num a) (Num b) = Num (a + b)"
| "jsplus _ _ = NaN"

definition TimeWithinDay :: "int \<Rightarrow> int" where
  "TimeWithinDay t = t mod msPerDay"

text \<open>
  \<open>date.setMonth(month)\<close>: the new time value of \<open>date\<close>. The year, the day of the month
  and the time within the day are kept; a month outside 0 to 11 carries into the year
  (\<open>MakeDay\<close>).
\<close>

fun setMonth :: "jsnum \<Rightarrow> jsnum \<Rightarrow> jsnum" where
  "setMonth (Num t) (Num month) =
     TimeClip (MakeDay (YearFromTime t) month (DateFromTime t) * msPerDay + TimeWithinDay t)"
| "setMonth _ _ = NaN"

section \<open>JSON\<close>

text \<open>
  The values \<open>JSON.stringify\<close> is applied to and \<open>JSON.parse\<close> returns. An object is the
  list of its properties in enumeration order. A number written with a fraction or an
  exponent is kept as its literal (\<open>JNumLit\<close>): its binary64 value is not computed.
\<close>

datatype jsval =
    JNull
  | JBool bool
  | JNum jsnum
  | JNumLit jsstring
  | JStr jsstring
  | JArr "jsval list"
  | JObj "(jsstring \<times> jsval) list"

subsection \<open>JSON.stringify\<close>

definition hexdigit :: "nat \<Rightarrow> nat" where
  "hexdigit d = (if d < 10 then 48 + d else 87 + d)"

text \<open>The escape of a code unit: backslash, \<open>u\<close>, four lower-case hexadecimal digits.\<close>

definition UnicodeEscape :: "nat \<Rightarrow> jsstring" where
  "UnicodeEscape c =
     [92, 117, hexdigit (c div 4096 mod 16), hexdigit (c div 256 mod 16),
      hexdigit (c div 16 mod 16), hexdigit (c mod 16)]"

definition isLeadingSurrogate :: "nat \<Rightarrow> bool" where
  "isLeadingSurrogate c = (55296 \<le> c \<and> c \<le> 56319)"

definition isTrailingSurrogate :: "nat \<Rightarrow> bool" where
  "isTrailingSurrogate c = (56320 \<le> c \<and> c \<le> 57343)"

text \<open>
  One code unit inside a quoted string: the short escapes, the four-digit escape for the
  other control characters and for a surrogate (this function is only applied to a
  surrogate that is not part of a pair), the unit itself otherwise.
\<close>

definition quote_unit :: "nat \<Rightarrow> jsstring" where
  "quote_unit c =
     (if c = 8 then [92, 98]
      else if c = 9 then [92, 116]
      else if c = 10 then [92, 110]
      else if c = 12 then [92, 102]
      else if c = 13 then [92, 114]
      else if c = 34 then [92, 34]
      else if c = 92 then [92, 92]
      else if c < 32 \<or> isLeadingSurrogate c \<or> isTrailingSurrogate c then UnicodeEscape c
      else [c])"

fun quote_units :: "jsstring \<Rightarrow> jsstring" where
  "quote_units [] = []"
| "quote_units [c] = quote_unit c"
| "quote_units (c # d # cs) =
     (if isLeadingSurrogate c \<and> isTrailingSurrogate d then c # d # quote_units cs
      else quote_unit c @ quote_units (d # cs))"

definition QuoteJSONString :: "jsstring \<Rightarrow> jsstring" where
  "QuoteJSONString s = [34] @ quote_units s @ [34]"

fun join_comma :: "jsstring list \<Rightarrow> jsstring" where
  "join_comma [] = []"
| "join_comma [x] = x"
| "join_comma (x # y # ys) = x @ [44] @ join_comma (y # ys)"

text \<open>
  \<open>JSON.stringify(value)\<close> without indentation. \<open>NaN\<close> is written as \<open>null\<close>. (A \<open>JNumLit\<close> is
  written as its literal, where JavaScript writes the shortest form of the binary64
  value; the application never stringifies one.)
\<close>

fun JSON_stringify :: "jsval \<Rightarrow> jsstring" where
  "JSON_stringify JNull = js ''null''"
| "JSON_stringify (JBool b) = (if b then js ''true'' else js ''false'')"
| "JSON_stringify (JNum NaN) = js ''null''"
| "JSON_stringify (JNum (Num n)) = toString n"
| "JSON_stringify (JNumLit t) = t"
| "JSON_stringify (JStr s) = QuoteJSONString s"
| "JSON_stringify (JArr vs) = [91] @ join_comma (map JSON_stringify vs) @ [93]"
| "JSON_stringify (JObj kvs) =
     [123] @ join_comma (map (\<lambda>(k, v). QuoteJSONString k @ [58] @ JSON_stringify v) kvs) @ [125]"

subsection \<open>JSON.parse\<close>

definition isJSONWhiteSpace :: "nat \<Rightarrow> bool" where
  "isJSONWhiteSpace c = (c = 9 \<or> c = 10 \<or> c = 13 \<or> c = 32)"

definition skip_ws :: "jsstring \<Rightarrow> jsstring" where
  "skip_ws s = dropWhile isJSONWhiteSpace s"

definition hexval :: "nat \<Rightarrow> nat option" where
  "hexval c =
     (if 48 \<le> c \<and> c \<le> 57 then Some (c - 48)
      else if 97 \<le> c \<and> c \<le> 102 then Some (c - 87)
      else if 65 \<le> c \<and> c \<le> 70 then Some (c - 55)
      else None)"

text \<open>The code unit a single-character escape stands for.\<close>

definition unescape :: "nat \<Rightarrow> nat option" where
  "unescape e =
     (if e = 34 then Some 34
      else if e = 92 then Some 92
      else if e = 47 then Some 47
      else if e = 98 then Some 8
      else if e = 102 then Some 12
      else if e = 110 then Some 10
      else if e = 114 then Some 13
      else if e = 116 then Some 9
      else None)"

definition prepend :: "nat \<Rightarrow> (jsstring \<times> jsstring) option \<Rightarrow> (jsstring \<times> jsstring) option" where
  "prepend c r = map_option (\<lambda>(str, rest). (c # str, rest)) r"

text \<open>
  The characters of a string literal after its opening quote: the string, and the input
  after the closing quote. A control character, a bad escape or the end of the input is
  an error (\<open>None\<close>).
\<close>

fun parse_chars :: "jsstring \<Rightarrow> (jsstring \<times> jsstring) option" where
  "parse_chars [] = None"
| "parse_chars (c # cs) =
     (if c = 34 then Some ([], cs)
      else if c = 92 then
        (case cs of
           [] \<Rightarrow> None
         | e # cs1 \<Rightarrow>
             if e = 117 then
               (case cs1 of
                  h1 # h2 # h3 # h4 # cs2 \<Rightarrow>
                    (case (hexval h1, hexval h2, hexval h3, hexval h4) of
                       (Some a, Some b, Some c, Some d) \<Rightarrow>
                         prepend (4096 * a + 256 * b + 16 * c + d) (parse_chars cs2)
                     | _ \<Rightarrow> None)
                | _ \<Rightarrow> None)
             else
               (case unescape e of
                  Some u \<Rightarrow> prepend u (parse_chars cs1)
                | None \<Rightarrow> None))
      else if c < 32 then None
      else prepend c (parse_chars cs))"

text \<open>
  A number literal: an optional minus sign, an integer part without a leading zero, an
  optional fraction, an optional exponent. The three functions below cut the longest
  such part off the front of the input (the empty list when there is none).
\<close>

definition integer_part :: "jsstring \<Rightarrow> jsstring" where
  "integer_part s = (if s \<noteq> [] \<and> hd s = 48 then [48] else takeWhile isDigit s)"

definition fraction_part :: "jsstring \<Rightarrow> jsstring" where
  "fraction_part s = (if s \<noteq> [] \<and> hd s = 46 then 46 # takeWhile isDigit (tl s) else [])"

definition exponent_part :: "jsstring \<Rightarrow> jsstring" where
  "exponent_part s =
     (if s \<noteq> [] \<and> (hd s = 101 \<or> hd s = 69) then
        (if tl s \<noteq> [] \<and> (hd (tl s) = 43 \<or> hd (tl s) = 45)
         then hd s # hd (tl s) # takeWhile isDigit (tl (tl s))
         else hd s # takeWhile isDigit (tl s))
      else [])"

text \<open>
  The integer part needs a digit, and so do a fraction and an exponent that are present.
  A literal with neither fraction nor exponent is the integer it denotes; any other is
  kept as its text.
\<close>

definition parse_number :: "jsstring \<Rightarrow> (jsval \<times> jsstring) option" where
  "parse_number s =
     (let sign = (if s \<noteq> [] \<and> hd s = 45 then [45] else []);
          s1 = drop (length sign) s;
          ds = integer_part s1;
          s2 = drop (length ds) s1;
          fs = fraction_part s2;
          s3 = drop (length fs) s2;
          es = exponent_part s3;
          s4 = drop (length es) s3 in
      if ds = [] then None
      else if fs \<noteq> [] \<and> length fs < 2 then None
      else if es \<noteq> [] \<and> \<not> isDigit (last es) then None
      else if fs = [] \<and> es = [] then
        Some (JNum (Num (if sign = [] then decimal_value ds else - decimal_value ds)), s4)
      else Some (JNumLit (sign @ ds @ fs @ es), s4))"

text \<open>
  Property keys that are array indices (canonical decimal numerals up to \<open>2^32 - 2\<close>) are
  enumerated first, in ascending order; the other keys follow in the order of their
  creation. \<open>obj_put\<close> creates or overwrites the property \<open>k\<close> of an object whose
  properties are in enumeration order.
\<close>

definition is_array_index :: "jsstring \<Rightarrow> bool" where
  "is_array_index k =
     (k \<noteq> [] \<and> list_all isDigit k \<and> (k = [48] \<or> hd k \<noteq> 48) \<and> decimal_value k \<le> 4294967294)"

fun obj_put :: "(jsstring \<times> jsval) list \<Rightarrow> jsstring \<Rightarrow> jsval \<Rightarrow> (jsstring \<times> jsval) list" where
  "obj_put [] k v = [(k, v)]"
| "obj_put ((k1, v1) # kvs) k v =
     (if k1 = k then (k, v) # kvs
      else if is_array_index k
              \<and> (\<not> is_array_index k1 \<or> decimal_value k < decimal_value k1)
           then (k, v) # (k1, v1) # kvs
      else (k1, v1) # obj_put kvs k v)"

text \<open>
  The parser proper. It is recursive in the nesting of the text, so it takes fuel: each
  call uses one unit. \<open>parse_elements\<close> reads the elements of a non-empty array up to
  its closing bracket, \<open>parse_members\<close> the members of a non-empty object.
\<close>

datatype 'a parse_result = Out_of_fuel | Syntax_error | Parsed 'a

definition of_option :: "'a option \<Rightarrow> 'a parse_result" where
  "of_option r = (case r of None \<Rightarrow> Syntax_error | Some x \<Rightarrow> Parsed x)"

definition expect :: "jsstring \<Rightarrow> jsval \<Rightarrow> jsstring \<Rightarrow> (jsval \<times> jsstring) parse_result" where
  "expect word v s =
     (if take (length word) s = word then Parsed (v, drop (length word) s) else Syntax_error)"

fun parse_value :: "nat \<Rightarrow> jsstring \<Rightarrow> (jsval \<times> jsstring) parse_result"
  and parse_elements :: "nat \<Rightarrow> jsval list \<Rightarrow> jsstring \<Rightarrow> (jsval \<times> jsstring) parse_result"
  and parse_members ::
    "nat \<Rightarrow> (jsstring \<times> jsval) list \<Rightarrow> jsstring \<Rightarrow> (jsval \<times> jsstring) parse_result"
where
  "parse_value 0 s = Out_of_fuel"
| "parse_value (Suc n) [] = Syntax_error"
| "parse_value (Suc n) (c # cs) =
     (if c = 123 then
        (case skip_ws cs of
           [] \<Rightarrow> Syntax_error
         | d # r \<Rightarrow> if d = 125 then Parsed (JObj [], r) else parse_members n [] (d # r))
      else if c = 91 then
        (case skip_ws cs of
           [] \<Rightarrow> Syntax_error
         | d # r \<Rightarrow> if d = 93 then Parsed (JArr [], r) else parse_elements n [] (d # r))
      else if c = 34 then
        of_option (map_option (\<lambda>(str, r). (JStr str, r)) (parse_chars cs))
      else if c = 116 then expect (js ''true'') (JBool True) (c # cs)
      else if c = 102 then expect (js ''false'') (JBool False) (c # cs)
      else if c = 110 then expect (js ''null'') JNull (c # cs)
      else of_option (parse_number (c # cs)))"
| "parse_elements 0 acc s = Out_of_fuel"
| "parse_elements (Suc n) acc s =
     (case parse_value n s of
        Parsed (v, r) \<Rightarrow>
          (case skip_ws r of
             [] \<Rightarrow> Syntax_error
           | d # r1 \<Rightarrow>
               if d = 44 then parse_elements n (acc @ [v]) (skip_ws r1)
               else if d = 93 then Parsed (JArr (acc @ [v]), r1)
               else Syntax_error)
      | Syntax_error \<Rightarrow> Syntax_error
      | Out_of_fuel \<Rightarrow> Out_of_fuel)"
| "parse_members 0 acc s = Out_of_fuel"
| "parse_members (Suc n) acc [] = Syntax_error"
| "parse_members (Suc n) acc (q # cs) =
     (if q \<noteq> 34 then Syntax_error
      else
        (case parse_chars cs of
           None \<Rightarrow> Syntax_error
         | Some (k, r) \<Rightarrow>
             (case skip_ws r of
                [] \<Rightarrow> Syntax_error
              | d # r1 \<Rightarrow>
                  if d \<noteq> 58 then Syntax_error
                  else
                    (case parse_value n (skip_ws r1) of
                       Parsed (v, r2) \<Rightarrow>
                         (case skip_ws r2 of
                            [] \<Rightarrow> Syntax_error
                          | e # r3 \<Rightarrow>
                              if e = 44 then parse_members n (obj_put acc k v) (skip_ws r3)
                              else if e = 125 then Parsed (JObj (obj_put acc k v), r3)
                              else Syntax_error)
                     | Syntax_error \<Rightarrow> Syntax_error
                     | Out_of_fuel \<Rightarrow> Out_of_fuel))))"

text \<open>
  \<open>JSON.parse(text)\<close>: one value, with white space around it and nothing else; \<open>None\<close>
  stands for the \<open>SyntaxError\<close>. The fuel is enough for every text (\<open>parse_fuel_enough\<close>
  below), so \<open>Out_of_fuel\<close> does not occur here.
\<close>

definition JSON_parse :: "jsstring \<Rightarrow> jsval option" where
  "JSON_parse s =
     (case parse_value (2 * length s + 2) (skip_ws s) of
        Parsed (v, r) \<Rightarrow> if skip_ws r = [] then Some v else None
      | _ \<Rightarrow> None)"

section \<open>Array.prototype.sort\<close>

text \<open>
  \<open>xs.sort(comparefn)\<close> is stable. A comparator result that is \<open>NaN\<close> counts as 0
  (\<open>SortCompare\<close>). The sort is modelled as the stable insertion sort: for a comparator that
  is consistent on the elements its result is the one every stable sort gives
  (\<open>sort_js_valid\<close> below shows this for the comparator of the application on valid time
  values); for an inconsistent comparator the standard leaves the order to the
  implementation, and this is one such order.
\<close>

definition SortCompare :: "('a \<Rightarrow> 'a \<Rightarrow> jsnum) \<Rightarrow> 'a \<Rightarrow> 'a \<Rightarrow> int" where
  "SortCompare comparefn x y = (case comparefn x y of NaN \<Rightarrow> 0 | Num v \<Rightarrow> v)"

fun insert_js :: "('a \<Rightarrow> 'a \<Rightarrow> jsnum) \<Rightarrow> 'a \<Rightarrow> 'a list \<Rightarrow> 'a list" where
  "insert_js comparefn x [] = [x]"
| "insert_js comparefn x (y # ys) =
     (if SortCompare comparefn x y \<le> 0 then x # y # ys else y # insert_js comparefn x ys)"

definition sort_js :: "('a \<Rightarrow> 'a \<Rightarrow> jsnum) \<Rightarrow> 'a list \<Rightarrow> 'a list" where
  "sort_js comparefn xs = foldr (insert_js comparefn) xs []"

section \<open>The data model (types.ts, as App.tsx and the services use it)\<close>

text \<open>
  The file that declares \<open>Memory\<close>, \<open>AnalysisResult\<close>, \<open>UserSongInput\<close> and \<open>Language\<close> is
  not among the sources; the records below have the fields of the object literals that
  build these values (\<open>newMemory\<close> in \<open>handleAnalyze\<close>, the fallback in \<open>analyzeMemory\<close>).
  The field \<open>id\<close> is called \<open>id'\<close> here.
\<close>

datatype language = Ja | En

datatype feedback = Correct | Incorrect

record song =
  title :: jsstring
  artist :: jsstring

record analysisResult =
  inferredEmotion :: jsstring
  analysisText :: jsstring
  moodColor :: jsstring
  imagePrompt :: jsstring

record memory =
  id' :: jsstring
  content :: jsstring
  moodScore :: int
  moodTags :: "jsstring list"
  timestamp :: jsnum
  song :: song
  analysis :: analysisResult
  imageUrl :: jsstring
  userFeedback :: "feedback option"
  language :: language

text \<open>The run-time value of a list of memories: what \<open>JSON.stringify\<close> sees.\<close>

definition js_of_language :: "language \<Rightarrow> jsval" where
  "js_of_language l = JStr (case l of Ja \<Rightarrow> js ''ja'' | En \<Rightarrow> js ''en'')"

definition js_of_feedback :: "feedback option \<Rightarrow> jsval" where
  "js_of_feedback f =
     (case f of None \<Rightarrow> JNull | Some Correct \<Rightarrow> JStr (js ''correct'')
      | Some Incorrect \<Rightarrow> JStr (js ''incorrect''))"

definition js_of_song :: "song \<Rightarrow> jsval" where
  "js_of_song s = JObj [(js ''title'', JStr (title s)), (js ''artist'', JStr (artist s))]"

definition js_of_analysis :: "analysisResult \<Rightarrow> jsval" where
  "js_of_analysis a =
     JObj [(js ''inferredEmotion'', JStr (inferredEmotion a)),
           (js ''analysisText'', JStr (analysisText a)),
           (js ''moodColor'', JStr (moodColor a)),
           (js ''imagePrompt'', JStr (imagePrompt a))]"

definition js_of_memory :: "memory \<Rightarrow> jsval" where
  "js_of_memory m =
     JObj [(js ''id'', JStr (id' m)),
           (js ''content'', JStr (content m)),
           (js ''moodScore'', JNum (Num (moodScore m))),
           (js ''moodTags'', JArr (map JStr (moodTags m))),
           (js ''timestamp'', JNum (timestamp m)),
           (js ''song'', js_of_song (song m)),
           (js ''analysis'', js_of_analysis (analysis m)),
           (js ''imageUrl'', JStr (imageUrl m)),
           (js ''userFeedback'', js_of_feedback (userFeedback m)),
           (js ''language'', js_of_language (language m))]"

definition js_of_memories :: "memory list \<Rightarrow> jsval" where
  "js_of_memories ms = JArr (map js_of_memory ms)"

section \<open>The analysis provider (services/geminiService)\<close>

text \<open>
  What the application writes to the console, shows to the user and asks of the
  provider, in order. The request for an analysis carries the inputs its prompt is built
  from (the wording of the prompt is not modelled); the request for an image carries its
  prompt.
\<close>

datatype event =
    Console_error
  | Alert jsstring
  | Request_analysis jsstring song int "jsstring list" jsnum language
  | Request_image jsstring

text \<open>
  The outcomes of \<open>ai.models.generateContent\<close> that matter to \<open>analyzeMemory\<close> and its
  caller: the call throws; the response has no text; the text is not JSON; the text is
  the JSON value \<open>null\<close>; the text is JSON that is an \<open>AnalysisResult\<close>. The code casts
  the parsed value (\<open>as AnalysisResult\<close>) without looking at it, so \<open>null\<close> is returned
  as it is; other values that are not of the declared type are not modelled.
\<close>

datatype analysis_reply =
    Analysis_call_fails
  | Analysis_no_text
  | Analysis_bad_json
  | Analysis_json_null
  | Analysis_json analysisResult

text \<open>The Japanese texts, as code units.\<close>

definition fallback_emotion_ja :: jsstring where
  "fallback_emotion_ja = [35299, 26512, 19981, 33021]"

definition fallback_text_ja :: jsstring where
  "fallback_text_ja =
     [30003, 12375, 35379, 12354, 12426, 12414, 12379, 12435, 12289, 20998, 26512, 20013,
      12395, 12456, 12521, 12540, 12364, 30330, 29983, 12375, 12414, 12375, 12383, 12290,
      12418, 12358, 23569, 12375, 26178, 38291, 12434, 32622, 12356, 12390, 12363, 12425,
      35430, 12375, 12390, 12415, 12390, 12367, 12384, 12373, 12356, 12290]"

definition fallbackAnalysis :: "language \<Rightarrow> analysisResult" where
  "fallbackAnalysis lang =
     \<lparr> inferredEmotion = (if lang = Ja then fallback_emotion_ja else js ''Analysis Failed''),
       analysisText =
         (if lang = Ja then fallback_text_ja
          else js ''Sorry, an error occurred during analysis. Please try again in a moment.''),
       moodColor = js ''#cbd5e1'',
       imagePrompt = js ''abstract minimalist geometric art, soft colors'' \<rparr>"

text \<open>
  \<open>analyzeMemory\<close>: the result (\<open>None\<close> is \<open>null\<close>) and what happened on the way. Every
  failure inside its \<open>try\<close> block is logged and answered with the fallback; the function
  never throws.
\<close>

definition analyzeMemory ::
  "jsstring \<Rightarrow> song \<Rightarrow> int \<Rightarrow> jsstring list \<Rightarrow> jsnum \<Rightarrow> language \<Rightarrow> analysis_reply
     \<Rightarrow> analysisResult option \<times> event list" where
  "analyzeMemory diaryText sng score tags date lang reply =
     (case reply of
        Analysis_json r \<Rightarrow> (Some r, [Request_analysis diaryText sng score tags date lang])
      | Analysis_json_null \<Rightarrow> (None, [Request_analysis diaryText sng score tags date lang])
      | _ \<Rightarrow> (Some (fallbackAnalysis lang),
               [Request_analysis diaryText sng score tags date lang, Console_error]))"

text \<open>
  The outcomes of the image call: it throws; the response has no first candidate with
  parts; or it has parts, each with its \<open>inlineData\<close> (MIME type and data) if any.
\<close>

datatype image_reply =
    Image_call_fails
  | Image_no_parts
  | Image_parts "(jsstring \<times> jsstring) option list"

definition image_request :: "jsstring \<Rightarrow> event" where
  "image_request prompt =
     Request_image
       (js ''Minimalist, modern abstract art. High quality, serene atmosphere. Use warm, organic shapes. ''
        @ prompt)"

definition generateMemoryImage :: "jsstring \<Rightarrow> image_reply \<Rightarrow> jsstring \<times> event list" where
  "generateMemoryImage prompt reply =
     (case reply of
        Image_parts parts \<Rightarrow>
          (case List.find (\<lambda>p. p \<noteq> None) parts of
             Some (Some (mimeType, data)) \<Rightarrow>
               (js ''data:'' @ mimeType @ js '';base64,'' @ data, [image_request prompt])
           | _ \<Rightarrow> ([], [image_request prompt, Console_error]))
      | _ \<Rightarrow> ([], [image_request prompt, Console_error]))"

section \<open>The application (App.tsx)\<close>

definition STORAGE_KEY :: jsstring where
  "STORAGE_KEY = js ''music_diary_data_v1''"

definition errorMsg_ja :: jsstring where
  "errorMsg_ja =
     [12456, 12521, 12540, 12364, 30330, 29983, 12375, 12414, 12375, 12383, 12290, 12375,
      12400, 12425, 12367, 12375, 12390, 12363, 12425, 20877, 24230, 12362, 35430, 12375,
      12367, 12384, 12373, 12356, 12290]"

definition errorMsg :: "language \<Rightarrow> jsstring" where
  "errorMsg lang =
     (if lang = Ja then errorMsg_ja else js ''An error occurred. Please try again later.'')"

text \<open>
  The state of the component: the list of memories, the content of the storage slot
  \<open>STORAGE_KEY\<close> of \<open>localStorage\<close> (\<open>None\<close> when the key is absent), the form inputs, the
  progress flags, and the log of events. The state variables \<open>language\<close> and \<open>moodScore\<close>
  are called \<open>language'\<close> and \<open>moodScore'\<close> here (the fields of a memory have these names).
\<close>

record app =
  memories :: "memory list"
  storage :: "jsstring option"
  language' :: language
  recordDate :: jsstring
  diaryText :: jsstring
  songTitle :: jsstring
  artistName :: jsstring
  moodScore' :: int
  selectedTags :: "jsstring list"
  isAnalyzing :: bool
  loadingStep :: jsstring
  events :: "event list"

text \<open>
  What one run of a handler reads from outside the component: the clock (\<open>Date.now()\<close>
  and the date string of \<open>getTodayString()\<close>), the provider's two replies, and whether
  \<open>localStorage.setItem\<close> throws (a full or disabled store).
\<close>

record world =
  now :: int
  today :: jsstring
  analysis_reply :: analysis_reply
  image_reply :: image_reply
  setItem_throws :: bool

text \<open>
  \<open>saveMemories\<close>: the list is set first, then written. The second component says whether
  \<open>setItem\<close> threw; the list has been set by then.
\<close>

definition saveMemories :: "bool \<Rightarrow> memory list \<Rightarrow> app \<Rightarrow> app \<times> bool" where
  "saveMemories throws newMemories st =
     (if throws then (st\<lparr>memories := newMemories\<rparr>, True)
      else (st\<lparr>memories := newMemories,
               storage := Some (JSON_stringify (js_of_memories newMemories))\<rparr>, False))"

text \<open>
  \<open>deleteMemory\<close> and \<open>handleFeedback\<close> call \<open>saveMemories\<close> outside any \<open>try\<close>: an exception
  of \<open>setItem\<close> ends the handler, with the state as \<open>saveMemories\<close> left it.
\<close>

definition deleteMemory :: "bool \<Rightarrow> jsstring \<Rightarrow> app \<Rightarrow> app" where
  "deleteMemory throws i st =
     fst (saveMemories throws (filter (\<lambda>m. id' m \<noteq> i) (memories st)) st)"

definition handleFeedback :: "bool \<Rightarrow> jsstring \<Rightarrow> bool \<Rightarrow> app \<Rightarrow> app" where
  "handleFeedback throws i isCorrect st =
     fst (saveMemories throws
            (map (\<lambda>m. if id' m = i
                       then m\<lparr>userFeedback := Some (if isCorrect then Correct else Incorrect)\<rparr>
                       else m)
                 (memories st))
            st)"

text \<open>The date of the form as a \<open>Date\<close>: \<open>new Date(year, month - 1, day)\<close> of the pieces of
  \<open>recordDate.split('-').map(Number)\<close>.\<close>

definition targetDate :: "jsstring \<Rightarrow> jsnum" where
  "targetDate rd =
     (let parts = map Number (split rd 45);
          year = element parts 0; month = element parts 1; day = element parts 2 in
      Date_of_fields (ToNumber year) (jsminus (ToNumber month) (Num 1)) (ToNumber day))"

definition compareFn :: "memory \<Rightarrow> memory \<Rightarrow> jsnum" where
  "compareFn a b = jsminus (timestamp b) (timestamp a)"

text \<open>The object literal \<open>newMemory\<close> of \<open>handleAnalyze\<close>: the clock gives the id, the form
  the content, the score, the tags and the song.\<close>

definition newMemory :: "world \<Rightarrow> app \<Rightarrow> jsnum \<Rightarrow> analysisResult \<Rightarrow> jsstring \<Rightarrow> memory" where
  "newMemory w st date a url =
     \<lparr> id' = toString (now w),
       content = diaryText st,
       moodScore = moodScore' st,
       moodTags = selectedTags st,
       timestamp = date,
       song = \<lparr> title = songTitle st, artist = artistName st \<rparr>,
       analysis = a,
       imageUrl = url,
       userFeedback = None,
       language = language' st \<rparr>"

text \<open>
  \<open>handleAnalyze\<close>, from the click to the end of its \<open>finally\<close> block, as one step (the
  submit button is disabled while \<open>isAnalyzing\<close> holds). The guard returns before anything
  else happens. Neither service throws. Inside the \<open>try\<close> block two statements can:
  reading \<open>analysis.imagePrompt\<close> when the analysis is \<open>null\<close>, and \<open>saveMemories\<close>. The
  \<open>catch\<close> block then logs and alerts, and the inputs are not reset.
\<close>

definition handleAnalyze :: "world \<Rightarrow> app \<Rightarrow> app" where
  "handleAnalyze w st =
     (if trim (songTitle st) = [] \<or> trim (artistName st) = [] then st
      else
        let date = targetDate (recordDate st);
            sng = \<lparr> title = songTitle st, artist = artistName st \<rparr>;
            (analysis, ev1) = analyzeMemory (diaryText st) sng (moodScore' st) (selectedTags st)
                                date (language' st) (analysis_reply w)
        in case analysis of
             None \<Rightarrow>
               st\<lparr>isAnalyzing := False, loadingStep := [],
                  events := events st @ ev1 @ [Console_error, Alert (errorMsg (language' st))]\<rparr>
           | Some a \<Rightarrow>
               let (url, ev2) = generateMemoryImage (imagePrompt a) (image_reply w);
                   updatedMemories = sort_js compareFn (newMemory w st date a url # memories st);
                   (st1, thrown) = saveMemories (setItem_throws w) updatedMemories st
               in if thrown
                  then st1\<lparr>isAnalyzing := False, loadingStep := [],
                           events := events st @ ev1 @ ev2
                                     @ [Console_error, Alert (errorMsg (language' st))]\<rparr>
                  else st1\<lparr>recordDate := today w, diaryText := [], songTitle := [],
                           artistName := [], moodScore' := 0, selectedTags := [],
                           isAnalyzing := False, loadingStep := [],
                           events := events st @ ev1 @ ev2\<rparr>)"

text \<open>The state before the load effect has run.\<close>

definition initial :: "language \<Rightarrow> jsstring \<Rightarrow> app" where
  "initial lang day =
     \<lparr> memories = [], storage = None, language' = lang, recordDate = day, diaryText = [],
       songTitle = [], artistName = [], moodScore' = 0, selectedTags = [],
       isAnalyzing = False, loadingStep = [], events = [] \<rparr>"

text \<open>
  The operations on the list of memories: a creation (the form is filled in, then
  \<open>handleAnalyze\<close> runs), a deletion, a feedback.
\<close>

record draft =
  draft_date :: jsstring
  draft_text :: jsstring
  draft_title :: jsstring
  draft_artist :: jsstring
  draft_score :: int
  draft_tags :: "jsstring list"

datatype operation =
    Create draft world
  | Delete jsstring bool
  | SetFeedback jsstring bool bool

definition fill :: "draft \<Rightarrow> app \<Rightarrow> app" where
  "fill d st =
     st\<lparr>recordDate := draft_date d, diaryText := draft_text d, songTitle := draft_title d,
        artistName := draft_artist d, moodScore' := draft_score d, selectedTags := draft_tags d\<rparr>"

fun apply_operation :: "app \<Rightarrow> operation \<Rightarrow> app" where
  "apply_operation st (Create d w) = handleAnalyze w (fill d st)"
| "apply_operation st (Delete i throws) = deleteMemory throws i st"
| "apply_operation st (SetFeedback i isCorrect throws) = handleFeedback throws i isCorrect st"

definition run :: "app \<Rightarrow> operation list \<Rightarrow> app" where
  "run st ops = foldl apply_operation st ops"

text \<open>Sorted by time stamp, latest first: each record is \<open>>=\<close> every later one.\<close>

definition sorted_desc :: "memory list \<Rightarrow> bool" where
  "sorted_desc ms = sorted_wrt (\<lambda>a b. jsge (timestamp a) (timestamp b)) ms"

section \<open>The load effect (App.tsx, useEffect)\<close>

text \<open>
  What the effect that runs once at start leaves in \<open>memories\<close>, and what it logs. The
  state starts as the empty array. A stored string that is absent (\<open>null\<close>) or empty is
  falsy and leaves it so; otherwise the parsed value is set as it is, whatever its shape,
  and a \<open>SyntaxError\<close> is caught and logged.
\<close>

definition load :: "jsstring option \<Rightarrow> jsval \<times> event list" where
  "load saved =
     (case saved of
        None \<Rightarrow> (JArr [], [])
      | Some s \<Rightarrow>
          if s = [] then (JArr [], [])
          else (case JSON_parse s of
                  Some v \<Rightarrow> (v, [])
                | None \<Rightarrow> (JArr [], [Console_error])))"

section \<open>The calendar (App.tsx, calendar helpers and renderCalendar)\<close>

text \<open>Strict equality of numbers: \<open>NaN\<close> equals nothing.\<close>

fun jseq :: "jsnum \<Rightarrow> jsnum \<Rightarrow> bool" where
  "jseq (Num a) (Num b) = (a = b)"
| "jseq _ _ = False"

definition getDaysInMonth :: "jsnum \<Rightarrow> jsnum" where
  "getDaysInMonth date =
     getDate (Date_of_fields (getFullYear date) (jsplus (getMonth date) (Num 1)) (Num 0))"

definition getFirstDayOfMonth :: "jsnum \<Rightarrow> jsnum" where
  "getFirstDayOfMonth date =
     getDay (Date_of_fields (getFullYear date) (getMonth date) (Num 1))"

text \<open>\<open>changeMonth\<close>: the new value of \<open>currentDate\<close>.\<close>

definition changeMonth :: "int \<Rightarrow> jsnum \<Rightarrow> jsnum" where
  "changeMonth offset currentDate =
     (let newDate = Date_of_number
                      (setMonth currentDate (jsplus (getMonth currentDate) (Num offset)))
      in Date_of_number newDate)"

definition getMemoriesForDate :: "jsnum \<Rightarrow> memory list \<Rightarrow> int \<Rightarrow> memory list" where
  "getMemoriesForDate currentDate ms day =
     filter (\<lambda>m. let mDate = Date_of_number (timestamp m) in
                  jseq (getDate mDate) (Num day)
                  \<and> jseq (getMonth mDate) (getMonth currentDate)
                  \<and> jseq (getFullYear mDate) (getFullYear currentDate))
       ms"

text \<open>
  The cells of the grid, in the order \<open>renderCalendar\<close> pushes them: an empty cell
  carries its index (its key \<open>empty-i\<close>), a day cell its day of the month and the
  memories shown in it. (Whether a day cell is highlighted as today is styling and is
  left out.)
\<close>

datatype cell =
    Empty_cell nat
  | Day_cell int "memory list"

text \<open>The values of \<open>i\<close> for which the body of \<open>for (let i = 0; i < n; i++)\<close> runs: none
  when \<open>n\<close> is \<open>NaN\<close>.\<close>

fun indices_below :: "jsnum \<Rightarrow> nat list" where
  "indices_below (Num n) = [0..<nat n]"
| "indices_below NaN = []"

text \<open>The values of \<open>day\<close> for which the body of \<open>for (let day = 1; day <= n; day++)\<close> runs.\<close>

fun days_upto :: "jsnum \<Rightarrow> int list" where
  "days_upto (Num n) = [1..n]"
| "days_upto NaN = []"

definition renderCalendar :: "jsnum \<Rightarrow> memory list \<Rightarrow> cell list" where
  "renderCalendar currentDate ms =
     (let daysInMonth = getDaysInMonth currentDate;
          firstDay = getFirstDayOfMonth currentDate in
      map Empty_cell (indices_below firstDay)
      @ map (\<lambda>day. Day_cell day (getMemoriesForDate currentDate ms day)) (days_upto daysInMonth))"

section \<open>Notions used in the statements\<close>

text \<open>The time value of a record whose time stamp is valid.\<close>

definition time_of :: "memory \<Rightarrow> int" where
  "time_of m = (case timestamp m of Num t \<Rightarrow> t | NaN \<Rightarrow> 0)"

text \<open>No record of the list has the time stamp \<open>NaN\<close>.\<close>

definition valid_times :: "memory list \<Rightarrow> bool" where
  "valid_times ms = list_all (\<lambda>m. timestamp m \<noteq> NaN) ms"

text \<open>The invariant of the list of memories.\<close>

definition well_sorted :: "app \<Rightarrow> bool" where
  "well_sorted st = (sorted_desc (memories st) \<and> valid_times (memories st))"

text \<open>
  The day number of the first day of the month that contains \<open>t\<close>, and the number of
  days of month \<open>m\<close> (0 to 11) in a common (\<open>l = 0\<close>) or leap (\<open>l = 1\<close>) year.
\<close>

definition first_day_of_month :: "int \<Rightarrow> int" where
  "first_day_of_month t = Day t - (DateFromTime t - 1)"

definition month_length :: "int \<Rightarrow> int \<Rightarrow> int" where
  "month_length l m =
     (if m = 1 then 28 + l
      else if m = 3 \<or> m = 5 \<or> m = 8 \<or> m = 10 then 30
      else 31)"

text \<open>The first and the last day of the month that contains \<open>t\<close> are within the range of
  time values (100 000 000 days either side of the epoch).\<close>

definition month_representable :: "int \<Rightarrow> bool" where
  "month_representable t =
     (\<bar>first_day_of_month t * msPerDay\<bar> \<le> 8640000000000000
      \<and> \<bar>(first_day_of_month t + month_length (InLeapYear t) (MonthFromTime t) - 1) * msPerDay\<bar>
          \<le> 8640000000000000)"

text \<open>The analysis call fails: \<open>analyzeMemory\<close> ends in its \<open>catch\<close> block.\<close>

definition analysis_fails :: "analysis_reply \<Rightarrow> bool" where
  "analysis_fails r =
     (case r of Analysis_call_fails \<Rightarrow> True | Analysis_no_text \<Rightarrow> True
      | Analysis_bad_json \<Rightarrow> True | _ \<Rightarrow> False)"


fun is_alert :: "event \<Rightarrow> bool" where
  "is_alert (Alert _) = True"
| "is_alert _ = False"

fun is_request :: "event \<Rightarrow> bool" where
  "is_request (Request_analysis _ _ _ _ _ _) = True"
| "is_request (Request_image _) = True"
| "is_request _ = False"

text \<open>
  The analysis that \<open>analyzeMemory\<close> returns in a run of \<open>handleAnalyze\<close>, and the record
  that the run builds from it. (When \<open>analyzeMemory\<close> returns \<open>null\<close> no record is built;
  \<open>the_analysis\<close> is then the fallback, and nothing below uses it in that case.)
\<close>

definition the_analysis :: "world \<Rightarrow> app \<Rightarrow> analysisResult" where
  "the_analysis w st =
     (case fst (analyzeMemory (diaryText st) \<lparr> title = songTitle st, artist = artistName st \<rparr>
                  (moodScore' st) (selectedTags st) (targetDate (recordDate st)) (language' st)
                  (analysis_reply w)) of
        Some a \<Rightarrow> a
      | None \<Rightarrow> fallbackAnalysis (language' st))"

definition created :: "world \<Rightarrow> app \<Rightarrow> memory" where
  "created w st =
     newMemory w st (targetDate (recordDate st)) (the_analysis w st)
       (fst (generateMemoryImage (imagePrompt (the_analysis w st)) (image_reply w)))"

text \<open>The events of one run of \<open>handleAnalyze\<close> up to the call of \<open>saveMemories\<close>.\<close>

definition service_events :: "world \<Rightarrow> app \<Rightarrow> event list" where
  "service_events w st =
     snd (analyzeMemory (diaryText st) \<lparr> title = songTitle st, artist = artistName st \<rparr>
            (moodScore' st) (selectedTags st) (targetDate (recordDate st)) (language' st)
            (analysis_reply w))
     @ snd (generateMemoryImage (imagePrompt (the_analysis w st)) (image_reply w))"

text \<open>
  The values that survive \<open>JSON.stringify\<close> followed by \<open>JSON.parse\<close> unchanged: no
  \<open>NaN\<close>, no number kept as a literal, and in every object distinct keys none of which
  is an array index.
\<close>

fun json_plain :: "jsval \<Rightarrow> bool" where
  "json_plain JNull = True"
| "json_plain (JBool b) = True"
| "json_plain (JNum n) = (n \<noteq> NaN)"
| "json_plain (JNumLit t) = False"
| "json_plain (JStr s) = True"
| "json_plain (JArr vs) = list_all json_plain vs"
| "json_plain (JObj kvs) =
     (distinct (map fst kvs) \<and> list_all (\<lambda>(k, v). \<not> is_array_index k \<and> json_plain v) kvs)"

text \<open>Notions of the proofs about the parser: the fuel a printed value needs, the text
  of one member of an object, the characters a printed value can start with and a number
  can be followed by, a sequence of \<open>obj_put\<close>, and the two invariants of the fuel.\<close>

fun need :: "jsval \<Rightarrow> nat" where
  "need (JArr vs) = Suc (sum_list (map need vs) + length vs)"
| "need (JObj kvs) = Suc (sum_list (map (\<lambda>(k, v). need v) kvs) + length kvs)"
| "need v = 1"

definition print_member :: "jsstring \<times> jsval \<Rightarrow> jsstring" where
  "print_member kv = QuoteJSONString (fst kv) @ [58] @ JSON_stringify (snd kv)"

definition value_start :: "nat \<Rightarrow> bool" where
  "value_start c =
     (c = 123 \<or> c = 91 \<or> c = 34 \<or> c = 116 \<or> c = 102 \<or> c = 110 \<or> c = 45 \<or> isDigit c)"

definition number_end :: "jsstring \<Rightarrow> bool" where
  "number_end rest =
     (rest = [] \<or> (\<not> isDigit (hd rest) \<and> hd rest \<noteq> 46 \<and> hd rest \<noteq> 101 \<and> hd rest \<noteq> 69))"

definition puts :: "(jsstring \<times> jsval) list \<Rightarrow> (jsstring \<times> jsval) list \<Rightarrow> (jsstring \<times> jsval) list" where
  "puts acc kvs = foldl (\<lambda>a kv. obj_put a (fst kv) (snd kv)) acc kvs"

definition consumes :: "nat \<Rightarrow> bool" where
  "consumes n =
     ((\<forall>s v r. parse_value n s = Parsed (v, r) \<longrightarrow> length r < length s)
      \<and> (\<forall>acc s v r. parse_elements n acc s = Parsed (v, r) \<longrightarrow> length r < length s)
      \<and> (\<forall>acc s v r. parse_members n acc s = Parsed (v, r) \<longrightarrow> length r < length s))"

definition enough :: "nat \<Rightarrow> bool" where
  "enough n =
     ((\<forall>s. 2 * length s < n \<longrightarrow> parse_value n s \<noteq> Out_of_fuel)
      \<and> (\<forall>acc s. 2 * length s + 1 < n \<longrightarrow> parse_elements n acc s \<noteq> Out_of_fuel)
      \<and> (\<forall>acc s. 2 * length s + 1 < n \<longrightarrow> parse_members n acc s \<noteq> Out_of_fuel))"

text \<open>
  What a memory is after a save and a reload: \<open>JSON.stringify\<close> writes the time stamp
  \<open>NaN\<close> as \<open>null\<close>, so that is what comes back.
\<close>

definition stored_timestamp :: "jsnum \<Rightarrow> jsval" where
  "stored_timestamp t = (case t of NaN \<Rightarrow> JNull | Num n \<Rightarrow> JNum (Num n))"

definition stored_memory :: "memory \<Rightarrow> jsval" where
  "stored_memory m =
     JObj [(js ''id'', JStr (id' m)),
           (js ''content'', JStr (content m)),
           (js ''moodScore'', JNum (Num (moodScore m))),
           (js ''moodTags'', JArr (map JStr (moodTags m))),
           (js ''timestamp'', stored_timestamp (timestamp m)),
           (js ''song'', js_of_song (song m)),
           (js ''analysis'', js_of_analysis (analysis m)),
           (js ''imageUrl'', JStr (imageUrl m)),
           (js ''userFeedback'', js_of_feedback (userFeedback m)),
           (js ''language'', js_of_language (language m))]"

section \<open>Example inputs\<close>

text \<open>A run at clock reading \<open>t\<close> in which both provider calls fail and the store accepts the write.\<close>

definition example_world :: "int \<Rightarrow> world" where
  "example_world t =
     \<lparr> now = t, today = js ''2024-06-01'', analysis_reply = Analysis_call_fails,
       image_reply = Image_call_fails, setItem_throws = False \<rparr>"

text \<open>The form of the scenario of the specification, with the date field holding \<open>d\<close>.\<close>

definition example_draft :: "jsstring \<Rightarrow> draft" where
  "example_draft d =
     \<lparr> draft_date = d, draft_text = [], draft_title = js ''Fly Me to the Moon'',
       draft_artist = js ''Sample Artist'', draft_score = 30, draft_tags = [js ''Nostalgic''] \<rparr>"

text \<open>The same run with a store that refuses the write.\<close>

definition example_world_full :: "int \<Rightarrow> world" where
  "example_world_full t = (example_world t)\<lparr>setItem_throws := True\<rparr>"

text \<open>The same run with an analysis call that answers \<open>null\<close>.\<close>

definition example_world_null :: "int \<Rightarrow> world" where
  "example_world_null t = (example_world t)\<lparr>analysis_reply := Analysis_json_null\<rparr>"

text \<open>The state after the form of the scenario has been filled in, on an empty diary.\<close>

definition example_state :: "jsstring \<Rightarrow> app" where
  "example_state d = fill (example_draft d) (initial En (js ''2024-06-01''))"

section \<open>Properties of the tag selection\<close>

lemma toggleTag_length: "length sel \<le> 3 \<Longrightarrow> length (toggleTag sel tag) \<le> 3"
proof -
  assume b: "length sel \<le> 3"
  have "length (filter (\<lambda>t. t \<noteq> tag) sel) \<le> length sel"
    by (rule length_filter_le)
  with b have "length (filter (\<lambda>t. t \<noteq> tag) sel) \<le> 3"
    by (rule order_trans[rotated])
  with b show ?thesis
    by (simp add: toggleTag_def)
qed

lemma toggles_length: "length sel \<le> 3 \<Longrightarrow> length (foldl toggleTag sel tags) \<le> 3"
  by (induction tags arbitrary: sel) (simp_all add: toggleTag_length)

lemma toggle_four_distinct:
  assumes "distinct [a, b, c, d]"
  shows "foldl toggleTag [] [a, b, c, d] = [a, b, c]"
  using assms by (auto simp: toggleTag_def)

text \<open>
  C4. Toggling a tag that is selected removes it (every occurrence is filtered out);
  toggling a tag that is not selected appends it when fewer than three tags are selected
  and changes nothing when exactly three are selected. So after any sequence of toggles
  that starts from the empty selection at most three tags are selected, and toggling four
  distinct tags in a row leaves the first three selected.
\<close>

theorem toggleTag_bounded_multiselect:
  "(tag \<in> set sel \<longrightarrow>
      toggleTag sel tag = filter (\<lambda>t. t \<noteq> tag) sel \<and> tag \<notin> set (toggleTag sel tag))
   \<and> (tag \<notin> set sel \<and> length sel < 3 \<longrightarrow> toggleTag sel tag = sel @ [tag])
   \<and> (tag \<notin> set sel \<and> length sel = 3 \<longrightarrow> toggleTag sel tag = sel)
   \<and> length (foldl toggleTag [] tags) \<le> 3
   \<and> (distinct [a, b, c, d] \<longrightarrow> foldl toggleTag [] [a, b, c, d] = [a, b, c])"
proof -
  have "length (foldl toggleTag [] tags) \<le> 3"
    by (rule toggles_length) simp
  moreover have "distinct [a, b, c, d] \<longrightarrow> foldl toggleTag [] [a, b, c, d] = [a, b, c]"
    using toggle_four_distinct by blast
  ultimately show ?thesis
    by (simp add: toggleTag_def)
qed

theorem toggleTag_bounded_multiselect_witness:
  "toggleTag [js ''Relax'', js ''Focus''] (js ''Relax'') = [js ''Focus'']
   \<and> toggleTag [js ''Relax''] (js ''Focus'') = [js ''Relax'', js ''Focus'']
   \<and> toggleTag [js ''Relax'', js ''Focus'', js ''Blue''] (js ''Calm'')
       = [js ''Relax'', js ''Focus'', js ''Blue'']
   \<and> foldl toggleTag [] [js ''Relax'', js ''Focus'', js ''Blue'', js ''Calm'']
       = [js ''Relax'', js ''Focus'', js ''Blue'']"
  using toggleTag_bounded_multiselect
      [of "js ''Relax''" "[js ''Relax'', js ''Focus'']" "[]"
          "js ''Relax''" "js ''Focus''" "js ''Blue''" "js ''Calm''"]
    toggleTag_bounded_multiselect
      [of "js ''Focus''" "[js ''Relax'']" "[]"
          "js ''Relax''" "js ''Focus''" "js ''Blue''" "js ''Calm''"]
    toggleTag_bounded_multiselect
      [of "js ''Calm''" "[js ''Relax'', js ''Focus'', js ''Blue'']" "[]"
          "js ''Relax''" "js ''Focus''" "js ''Blue''" "js ''Calm''"]
  by (simp add: js_def)

section \<open>The order of the list of memories\<close>

lemma set_insert_js: "set (insert_js c x ys) = insert x (set ys)"
  by (induction ys) auto

lemma set_sort_js: "set (sort_js c xs) = set xs"
  by (induction xs) (simp_all add: sort_js_def set_insert_js)

lemma length_insert_js: "length (insert_js c x ys) = Suc (length ys)"
  by (induction ys) auto

lemma SortCompare_valid:
  "timestamp x \<noteq> NaN \<Longrightarrow> timestamp y \<noteq> NaN \<Longrightarrow>
     SortCompare compareFn x y = time_of y - time_of x"
  by (cases "timestamp x"; cases "timestamp y")
     (simp_all add: SortCompare_def compareFn_def time_of_def)

lemma jsge_valid:
  "timestamp x \<noteq> NaN \<Longrightarrow> timestamp y \<noteq> NaN \<Longrightarrow>
     jsge (timestamp x) (timestamp y) = (time_of y \<le> time_of x)"
  by (cases "timestamp x"; cases "timestamp y") (simp_all add: time_of_def)

lemma insert_js_insort:
  "timestamp x \<noteq> NaN \<Longrightarrow> valid_times ys \<Longrightarrow>
     insert_js compareFn x ys = insort_key (\<lambda>m. - time_of m) x ys"
  by (induction ys) (simp_all add: valid_times_def SortCompare_valid)

lemma valid_times_insort:
  "timestamp x \<noteq> NaN \<Longrightarrow> valid_times ys \<Longrightarrow> valid_times (insort_key f x ys)"
  by (simp add: valid_times_def list_all_iff set_insort_key)

lemma sort_js_valid:
  "valid_times xs \<Longrightarrow> sort_js compareFn xs = sort_key (\<lambda>m. - time_of m) xs"
proof (induction xs)
  case Nil
  then show ?case by (simp add: sort_js_def)
next
  case (Cons x xs)
  then have v: "timestamp x \<noteq> NaN" "valid_times xs"
    by (simp_all add: valid_times_def)
  have "valid_times (sort_key (\<lambda>m. - time_of m) xs)"
    using v(2) by (simp add: valid_times_def list_all_iff)
  then show ?case
    using Cons v by (simp add: sort_js_def sort_key_def insert_js_insort)
qed

lemma sorted_desc_iff:
  "valid_times ms \<Longrightarrow> sorted_desc ms = sorted (map (\<lambda>m. - time_of m) ms)"
proof (induction ms)
  case Nil
  then show ?case by (simp add: sorted_desc_def)
next
  case (Cons m ms)
  then have v: "timestamp m \<noteq> NaN" "valid_times ms" "\<forall>y\<in>set ms. timestamp y \<noteq> NaN"
    by (simp_all add: valid_times_def list_all_iff)
  with Cons show ?case
    by (auto simp: sorted_desc_def jsge_valid)
qed

lemma sorted_desc_sort_js:
  assumes "valid_times xs"
  shows "sorted_desc (sort_js compareFn xs) \<and> valid_times (sort_js compareFn xs)"
proof -
  have v: "valid_times (sort_js compareFn xs)"
    using assms by (simp add: valid_times_def list_all_iff set_sort_js)
  then show ?thesis
    using assms by (simp add: sorted_desc_iff) (simp add: sort_js_valid)
qed

lemma sorted_desc_filter: "sorted_desc ms \<Longrightarrow> sorted_desc (filter P ms)"
  by (simp add: sorted_desc_def sorted_wrt_filter)

lemma sorted_desc_map:
  "(\<And>m. timestamp (f m) = timestamp m) \<Longrightarrow> sorted_desc ms \<Longrightarrow> sorted_desc (map f ms)"
  by (simp add: sorted_desc_def sorted_wrt_map)

lemma memories_saveMemories: "memories (fst (saveMemories t ms st)) = ms"
  by (simp add: saveMemories_def)

lemma memories_deleteMemory:
  "memories (deleteMemory t i st) = filter (\<lambda>m. id' m \<noteq> i) (memories st)"
  by (simp add: deleteMemory_def memories_saveMemories)

lemma memories_handleFeedback:
  "memories (handleFeedback t i c st) =
     map (\<lambda>m. if id' m = i then m\<lparr>userFeedback := Some (if c then Correct else Incorrect)\<rparr> else m)
       (memories st)"
  by (simp add: handleFeedback_def memories_saveMemories)

lemma memories_handleAnalyze:
  "memories (handleAnalyze w st) =
     (if trim (songTitle st) = [] \<or> trim (artistName st) = []
         \<or> analysis_reply w = Analysis_json_null
      then memories st
      else sort_js compareFn (created w st # memories st))"
  by (simp add: handleAnalyze_def saveMemories_def created_def the_analysis_def
      analyzeMemory_def Let_def split: prod.splits analysis_reply.splits)

lemma timestamp_created: "timestamp (created w st) = targetDate (recordDate st)"
  by (simp add: created_def newMemory_def)

lemma memories_fill: "memories (fill d st) = memories st"
  by (simp add: fill_def)

lemma fields_fill:
  "recordDate (fill d st) = draft_date d" "songTitle (fill d st) = draft_title d"
  "artistName (fill d st) = draft_artist d"
  by (simp_all add: fill_def)

lemma well_sorted_step:
  assumes "well_sorted st"
    and "\<And>d w. op = Create d w \<Longrightarrow> targetDate (draft_date d) \<noteq> NaN"
  shows "well_sorted (apply_operation st op)"
proof (cases op)
  case (Create d w)
  with assms(2) have v: "timestamp (created w (fill d st)) \<noteq> NaN"
    by (simp add: timestamp_created fields_fill)
  with assms(1) have "valid_times (created w (fill d st) # memories st)"
    by (simp add: well_sorted_def valid_times_def)
  from sorted_desc_sort_js[OF this] assms(1) show ?thesis
    by (simp add: Create well_sorted_def memories_handleAnalyze memories_fill)
next
  case (Delete i t)
  with assms(1) show ?thesis
    by (simp add: well_sorted_def memories_deleteMemory sorted_desc_filter valid_times_def
        list_all_iff)
next
  case (SetFeedback i c t)
  let ?f = "\<lambda>m. if id' m = i
                 then m\<lparr>userFeedback := Some (if c then Correct else Incorrect)\<rparr> else m"
  have ts: "\<And>m. timestamp (?f m) = timestamp m"
    by simp
  have "sorted_desc (map ?f (memories st))"
    using assms(1) ts by (intro sorted_desc_map) (simp_all add: well_sorted_def)
  moreover have "valid_times (map ?f (memories st))"
    using assms(1) by (auto simp: well_sorted_def valid_times_def list_all_iff)
  ultimately show ?thesis
    by (simp add: SetFeedback well_sorted_def memories_handleFeedback)
qed

lemma well_sorted_run:
  assumes "well_sorted st"
    and "\<forall>d w. Create d w \<in> set ops \<longrightarrow> targetDate (draft_date d) \<noteq> NaN"
  shows "well_sorted (run st ops)"
  using assms
proof (induction ops arbitrary: st)
  case Nil
  then show ?case by (simp add: run_def)
next
  case (Cons op ops)
  have "well_sorted (apply_operation st op)"
    using Cons.prems by (intro well_sorted_step) auto
  then have "well_sorted (run (apply_operation st op) ops)"
    using Cons.prems by (intro Cons.IH) auto
  then show ?case by (simp add: run_def)
qed

text \<open>
  C1 (as amended). After every sequence of create, delete and feedback operations on a
  list of memories that starts empty, the list is sorted by time stamp, latest first,
  provided that the date field of every creation gives a valid date (a time stamp other
  than \<open>NaN\<close>). \<open>handleAnalyze\<close> does not check the date field: an empty or otherwise
  malformed one gives a record whose time stamp is \<open>NaN\<close>, which the comparator of the
  sort cannot order.
\<close>

theorem sorted_after_operations:
  assumes "\<forall>d w. Create d w \<in> set ops \<longrightarrow> targetDate (draft_date d) \<noteq> NaN"
  shows "sorted_desc (memories (run (initial lang day) ops))"
proof -
  have "well_sorted (initial lang day)"
    by (simp add: well_sorted_def initial_def sorted_desc_def valid_times_def)
  from well_sorted_run[OF this assms] show ?thesis
    by (simp add: well_sorted_def)
qed

lemma targetDate_examples:
  "targetDate (js ''2024-05-01'') = Num 1714521600000"
  "targetDate (js ''2024-05-03'') = Num 1714694400000"
  "targetDate (js ''2024-05-05'') = Num 1714867200000"
  "targetDate [] = NaN"
  by (simp_all add: targetDate_def js_def split_def Number_def trim_def isWhiteSpace_def
      isDigit_def decimal_value_def element_def MakeDay_def MakeFullYear_def TimeClip_def
      msPerDay_def DayFromYear_def DaysInYear_def monthStart_def)

lemma example_guard:
  "trim (draft_title (example_draft d)) \<noteq> []" "trim (draft_artist (example_draft d)) \<noteq> []"
  by (simp_all add: example_draft_def js_def trim_def isWhiteSpace_def)

lemma example_world_reply:
  "analysis_reply (example_world t) \<noteq> Analysis_json_null"
  "analysis_reply (example_world_full t) \<noteq> Analysis_json_null"
  by (simp_all add: example_world_def example_world_full_def)

lemma memories_create_example:
  "memories (apply_operation st (Create (example_draft d) (example_world t))) =
     sort_js compareFn (created (example_world t) (fill (example_draft d) st) # memories st)"
  by (simp add: memories_handleAnalyze fields_fill example_guard memories_fill
      example_world_reply)

lemma timestamp_create_example:
  "timestamp (created w (fill (example_draft d) st)) = targetDate d"
  by (simp add: timestamp_created fields_fill example_draft_def)

text \<open>
  The claim without the proviso fails: a record dated 5 May, then one created with the
  date field cleared, then one dated 3 May. The list ends as 3 May, \<open>NaN\<close>, 5 May.
\<close>

theorem unsorted_counterexample:
  "map timestamp
     (memories (run (initial En (js ''2024-06-01''))
        [Create (example_draft (js ''2024-05-05'')) (example_world 1717200000000),
         Create (example_draft []) (example_world 1717200060000),
         Create (example_draft (js ''2024-05-03'')) (example_world 1717200120000)]))
     = [Num 1714694400000, NaN, Num 1714867200000]
   \<and> \<not> sorted_desc
     (memories (run (initial En (js ''2024-06-01''))
        [Create (example_draft (js ''2024-05-05'')) (example_world 1717200000000),
         Create (example_draft []) (example_world 1717200060000),
         Create (example_draft (js ''2024-05-03'')) (example_world 1717200120000)]))"
proof -
  let ?st0 = "initial En (js ''2024-06-01'')"
  have m0: "memories ?st0 = []" by (simp add: initial_def)
  show ?thesis
    unfolding run_def foldl.simps memories_create_example m0
    by (simp add: sort_js_def SortCompare_def compareFn_def timestamp_create_example
        targetDate_examples sorted_desc_def)
qed

text \<open>
  Two records with time stamps \<open>T1 < T2\<close>, created in this order: the list is the
  \<open>T2\<close> record, then the \<open>T1\<close> record.
\<close>

theorem sorted_after_operations_witness:
  "map timestamp
     (memories (run (initial En (js ''2024-06-01''))
        [Create (example_draft (js ''2024-05-01'')) (example_world 1717200000000),
         Create (example_draft (js ''2024-05-03'')) (example_world 1717200060000)]))
     = [Num 1714694400000, Num 1714521600000]
   \<and> sorted_desc
     (memories (run (initial En (js ''2024-06-01''))
        [Create (example_draft (js ''2024-05-01'')) (example_world 1717200000000),
         Create (example_draft (js ''2024-05-03'')) (example_world 1717200060000)]))"
proof -
  let ?st0 = "initial En (js ''2024-06-01'')"
  let ?ops = "[Create (example_draft (js ''2024-05-01'')) (example_world 1717200000000),
         Create (example_draft (js ''2024-05-03'')) (example_world 1717200060000)]"
  have m0: "memories ?st0 = []" by (simp add: initial_def)
  have d: "\<forall>d w. Create d w \<in> set ?ops \<longrightarrow> targetDate (draft_date d) \<noteq> NaN"
    by (auto simp: example_draft_def targetDate_examples)
  have "map timestamp (memories (run ?st0 ?ops)) = [Num 1714694400000, Num 1714521600000]"
    unfolding run_def foldl.simps memories_create_example m0
    by (simp add: sort_js_def SortCompare_def compareFn_def timestamp_create_example
        targetDate_examples)
  with sorted_after_operations[OF d, of En "js ''2024-06-01''"] show ?thesis
    by simp
qed

section \<open>The ids of the records\<close>

lemma decimal_value_snoc: "decimal_value (ds @ [c]) = 10 * decimal_value ds + (int c - 48)"
  by (simp add: decimal_value_def)

lemma decimal_value_digits_of: "decimal_value (digits_of n) = int n"
proof (induction n rule: digits_of.induct)
  case (1 n)
  show ?case
  proof (cases "n < 10")
    case True
    then show ?thesis
      by (subst digits_of.simps) (simp add: decimal_value_def)
  next
    case False
    with 1 have "decimal_value (digits_of (n div 10)) = int (n div 10)"
      by simp
    moreover have "10 * int (n div 10) + int (n mod 10) = int n"
      by arith
    ultimately show ?thesis
      using False by (subst digits_of.simps) (simp add: decimal_value_snoc)
  qed
qed

lemma digits_of_digits: "list_all isDigit (digits_of n) \<and> digits_of n \<noteq> []"
proof (induction n rule: digits_of.induct)
  case (1 n)
  show ?case
  proof (cases "n < 10")
    case True
    then show ?thesis
      by (subst (1 2) digits_of.simps) (simp add: isDigit_def)
  next
    case False
    with 1 have "list_all isDigit (digits_of (n div 10))"
      by simp
    moreover have "isDigit (48 + n mod 10)"
      by (simp add: isDigit_def)
    ultimately show ?thesis
      using False by (subst (1 2) digits_of.simps) simp
  qed
qed

lemma digits_of_inj: "digits_of a = digits_of b \<Longrightarrow> a = b"
proof -
  assume "digits_of a = digits_of b"
  then have "decimal_value (digits_of a) = decimal_value (digits_of b)"
    by simp
  then show "a = b"
    by (simp add: decimal_value_digits_of)
qed

lemma digits_of_not_minus: "digits_of n \<noteq> 45 # ds"
proof
  assume e: "digits_of n = 45 # ds"
  have "list_all isDigit (digits_of n)"
    using digits_of_digits by blast
  with e show False
    by (simp add: isDigit_def)
qed

lemma toString_inj: "toString a = toString b \<Longrightarrow> a = b"
proof -
  assume e: "toString a = toString b"
  show "a = b"
  proof (cases "a < 0")
    case a: True
    show ?thesis
    proof (cases "b < 0")
      case True
      with a e have "nat (- a) = nat (- b)"
        by (simp add: toString_def digits_of_inj)
      with a True show ?thesis by simp
    next
      case False
      with a e show ?thesis
        using digits_of_not_minus[of "nat b" "digits_of (nat (- a))"]
        by (simp add: toString_def)
    qed
  next
    case a: False
    show ?thesis
    proof (cases "b < 0")
      case True
      with a e show ?thesis
        using digits_of_not_minus[of "nat a" "digits_of (nat (- b))"]
        by (simp add: toString_def)
    next
      case False
      with a e have "nat a = nat b"
        by (simp add: toString_def digits_of_inj)
      with a False show ?thesis by simp
    qed
  qed
qed

lemma id_created: "id' (created w st) = toString (now w)"
  by (simp add: created_def newMemory_def)

lemma created_stored:
  "trim (songTitle st) \<noteq> [] \<Longrightarrow> trim (artistName st) \<noteq> [] \<Longrightarrow>
   analysis_reply w \<noteq> Analysis_json_null \<Longrightarrow>
     created w st \<in> set (memories (handleAnalyze w st))"
  by (simp add: memories_handleAnalyze set_sort_js)

text \<open>
  C2 (as amended). The id of a record is the decimal notation of the clock reading
  \<open>Date.now()\<close> taken when the record is built, and nothing else. Two creations (each
  with a title and an artist that are not blank, and an analysis to build the record
  from) whose clock readings differ store records with distinct ids: the notation is
  injective.
\<close>

theorem ids_distinct_for_distinct_clock_readings:
  assumes "trim (songTitle st1) \<noteq> []" "trim (artistName st1) \<noteq> []"
    and "trim (songTitle st2) \<noteq> []" "trim (artistName st2) \<noteq> []"
    and "analysis_reply w1 \<noteq> Analysis_json_null" "analysis_reply w2 \<noteq> Analysis_json_null"
    and "now w1 \<noteq> now w2"
  shows "created w1 st1 \<in> set (memories (handleAnalyze w1 st1))
       \<and> created w2 st2 \<in> set (memories (handleAnalyze w2 st2))
       \<and> id' (created w1 st1) = toString (now w1)
       \<and> id' (created w2 st2) = toString (now w2)
       \<and> id' (created w1 st1) \<noteq> id' (created w2 st2)"
  using assms toString_inj[of "now w1" "now w2"]
  by (auto simp: id_created created_stored)

lemma id_create_example:
  "id' (created (example_world t) st) = toString t"
  by (simp add: id_created example_world_def)

lemma toString_example: "toString 1717200000000 = js ''1717200000000''"
  "toString 1717200060000 = js ''1717200060000''"
  by (simp_all add: toString_def digits_of.simps js_def)

text \<open>
  Without the proviso the claim fails: two creations of one session that read the same
  clock value (the wall clock can be set back) store two records with the same id.
\<close>

theorem equal_ids_counterexample:
  "map id'
     (memories (run (initial En (js ''2024-06-01''))
        [Create (example_draft (js ''2024-05-01'')) (example_world 1717200000000),
         Create (example_draft (js ''2024-05-03'')) (example_world 1717200000000)]))
     = [js ''1717200000000'', js ''1717200000000'']"
proof -
  let ?st0 = "initial En (js ''2024-06-01'')"
  have m0: "memories ?st0 = []" by (simp add: initial_def)
  show ?thesis
    unfolding run_def foldl.simps memories_create_example m0
    by (simp add: sort_js_def SortCompare_def compareFn_def timestamp_create_example
        targetDate_examples id_create_example toString_example)
qed

text \<open>
  Two creations one minute apart.
\<close>

theorem ids_distinct_witness:
  "id' (created (example_world 1717200000000)
          (fill (example_draft (js ''2024-05-01'')) (initial En (js ''2024-06-01''))))
     = js ''1717200000000''
   \<and> id' (created (example_world 1717200060000)
          (fill (example_draft (js ''2024-05-03'')) (initial En (js ''2024-06-01''))))
     = js ''1717200060000''
   \<and> id' (created (example_world 1717200000000)
          (fill (example_draft (js ''2024-05-01'')) (initial En (js ''2024-06-01''))))
     \<noteq> id' (created (example_world 1717200060000)
          (fill (example_draft (js ''2024-05-03'')) (initial En (js ''2024-06-01''))))"
proof -
  let ?w1 = "example_world 1717200000000" and ?w2 = "example_world 1717200060000"
  let ?st1 = "fill (example_draft (js ''2024-05-01'')) (initial En (js ''2024-06-01''))"
  let ?st2 = "fill (example_draft (js ''2024-05-03'')) (initial En (js ''2024-06-01''))"
  have n: "now ?w1 \<noteq> now ?w2"
    by (simp add: example_world_def)
  have g: "trim (songTitle ?st1) \<noteq> []" "trim (artistName ?st1) \<noteq> []"
    "trim (songTitle ?st2) \<noteq> []" "trim (artistName ?st2) \<noteq> []"
    by (simp_all add: fields_fill example_guard)
  from ids_distinct_for_distinct_clock_readings[OF g example_world_reply(1)
      example_world_reply(1) n]
  have "id' (created ?w1 ?st1) \<noteq> id' (created ?w2 ?st2)"
    by blast
  moreover have "id' (created ?w1 ?st1) = js ''1717200000000''"
    "id' (created ?w2 ?st2) = js ''1717200060000''"
    by (simp_all add: id_create_example toString_example)
  ultimately show ?thesis
    by blast
qed

section \<open>The creation sequence\<close>

lemma handleAnalyze_blank:
  "trim (songTitle st) = [] \<or> trim (artistName st) = [] \<Longrightarrow> handleAnalyze w st = st"
  by (simp add: handleAnalyze_def)

lemma handleAnalyze_null:
  assumes "trim (songTitle st) \<noteq> []" "trim (artistName st) \<noteq> []"
    and "analysis_reply w = Analysis_json_null"
  shows "handleAnalyze w st =
     st\<lparr>isAnalyzing := False, loadingStep := [],
        events := events st
          @ [Request_analysis (diaryText st) \<lparr> title = songTitle st, artist = artistName st \<rparr>
               (moodScore' st) (selectedTags st) (targetDate (recordDate st)) (language' st),
             Console_error, Alert (errorMsg (language' st))]\<rparr>"
  using assms
  by (simp add: handleAnalyze_def analyzeMemory_def)

lemma handleAnalyze_saved:
  assumes "trim (songTitle st) \<noteq> []" "trim (artistName st) \<noteq> []"
    and "analysis_reply w \<noteq> Analysis_json_null" "\<not> setItem_throws w"
  shows "handleAnalyze w st =
     st\<lparr>memories := sort_js compareFn (created w st # memories st),
        storage := Some (JSON_stringify
                     (js_of_memories (sort_js compareFn (created w st # memories st)))),
        recordDate := today w, diaryText := [], songTitle := [], artistName := [],
        moodScore' := 0, selectedTags := [], isAnalyzing := False, loadingStep := [],
        events := events st @ service_events w st\<rparr>"
  using assms
  by (simp add: handleAnalyze_def saveMemories_def service_events_def created_def
      the_analysis_def analyzeMemory_def Let_def split: prod.splits analysis_reply.splits)

lemma handleAnalyze_thrown:
  assumes "trim (songTitle st) \<noteq> []" "trim (artistName st) \<noteq> []"
    and "analysis_reply w \<noteq> Analysis_json_null" "setItem_throws w"
  shows "handleAnalyze w st =
     st\<lparr>memories := sort_js compareFn (created w st # memories st),
        isAnalyzing := False, loadingStep := [],
        events := events st @ service_events w st
                  @ [Console_error, Alert (errorMsg (language' st))]\<rparr>"
  using assms
  by (simp add: handleAnalyze_def saveMemories_def service_events_def created_def
      the_analysis_def analyzeMemory_def Let_def split: prod.splits analysis_reply.splits)

lemma analysis_created: "analysis (created w st) = the_analysis w st"
  by (simp add: created_def newMemory_def)

lemma service_events_requests:
  "filter is_request (service_events w st) =
     [Request_analysis (diaryText st) \<lparr> title = songTitle st, artist = artistName st \<rparr>
        (moodScore' st) (selectedTags st) (targetDate (recordDate st)) (language' st),
      image_request (imagePrompt (analysis (created w st)))]"
  by (simp add: service_events_def analysis_created analyzeMemory_def generateMemoryImage_def
      image_request_def split: analysis_reply.splits image_reply.splits option.splits)

lemma service_events_no_alert: "filter is_alert (service_events w st) = []"
  by (simp add: service_events_def analyzeMemory_def generateMemoryImage_def image_request_def
      split: analysis_reply.splits image_reply.splits option.splits)

lemma analysis_created_fallback:
  "analysis_fails (analysis_reply w) \<Longrightarrow>
     analysis (created w st) = fallbackAnalysis (language' st)"
  by (simp add: analysis_created the_analysis_def analyzeMemory_def analysis_fails_def
      split: analysis_reply.splits)






lemma example_state_guard:
  "trim (songTitle (example_state d)) \<noteq> []" "trim (artistName (example_state d)) \<noteq> []"
  by (simp_all add: example_state_def fields_fill example_guard)

lemma example_state_fields:
  "memories (example_state d) = []" "storage (example_state d) = None"
  "events (example_state d) = []" "recordDate (example_state d) = d"
  "language' (example_state d) = En"
  by (simp_all add: example_state_def fill_def initial_def example_draft_def)

lemma sort_js_single: "sort_js c [x] = [x]"
  by (simp add: sort_js_def)


text \<open>
  C5 (as amended). A submission whose title or artist is blank (empty once trimmed) is
  ignored: \<open>handleAnalyze\<close> returns at its guard and the state is unchanged, so no provider
  call is made, nothing is shown, no record reaches the list or the store, and
  \<open>isAnalyzing\<close> keeps its value. The date string is not examined: see the counterexample.
\<close>

theorem blank_submission_ignored:
  assumes "trim (songTitle st) = [] \<or> trim (artistName st) = []"
  shows "handleAnalyze w st = st
       \<and> filter is_request (events (handleAnalyze w st)) = filter is_request (events st)
       \<and> filter is_alert (events (handleAnalyze w st)) = filter is_alert (events st)
       \<and> memories (handleAnalyze w st) = memories st
       \<and> storage (handleAnalyze w st) = storage st
       \<and> isAnalyzing (handleAnalyze w st) = isAnalyzing st"
  using assms by (simp add: handleAnalyze_blank)

text \<open>
  A title of three spaces.
\<close>

theorem blank_submission_ignored_witness:
  "handleAnalyze (example_world 1717200000000)
     ((example_state (js ''2024-05-01''))\<lparr>songTitle := js ''   ''\<rparr>)
   = (example_state (js ''2024-05-01''))\<lparr>songTitle := js ''   ''\<rparr>"
proof -
  have "trim (songTitle ((example_state (js ''2024-05-01''))\<lparr>songTitle := js ''   ''\<rparr>)) = []"
    by (simp add: trim_def js_def isWhiteSpace_def)
  then show ?thesis
    using blank_submission_ignored[of "(example_state (js ''2024-05-01''))\<lparr>songTitle := js ''   ''\<rparr>"
        "example_world 1717200000000"]
    by blast
qed

text \<open>
  The claim as stated fails for a malformed date: with the date field cleared (the empty
  string) both provider requests are made, and a record whose time stamp is \<open>NaN\<close> reaches
  the list and the store.
\<close>

theorem malformed_date_counterexample:
  "recordDate (example_state []) = []
   \<and> filter is_request (events (handleAnalyze (example_world 1717200000000) (example_state [])))
       = [Request_analysis [] \<lparr> title = js ''Fly Me to the Moon'', artist = js ''Sample Artist'' \<rparr>
            30 [js ''Nostalgic''] NaN En,
          image_request (js ''abstract minimalist geometric art, soft colors'')]
   \<and> memories (handleAnalyze (example_world 1717200000000) (example_state []))
       = [created (example_world 1717200000000) (example_state [])]
   \<and> timestamp (created (example_world 1717200000000) (example_state [])) = NaN
   \<and> storage (handleAnalyze (example_world 1717200000000) (example_state []))
       = Some (JSON_stringify (js_of_memories
           [created (example_world 1717200000000) (example_state [])]))"
proof -
  let ?w = "example_world 1717200000000" and ?st = "example_state []"
  have t: "\<not> setItem_throws ?w"
    by (simp add: example_world_def)
  note n = example_world_reply(1)[of 1717200000000]
  have a: "analysis (created ?w ?st) = fallbackAnalysis En"
    using analysis_created_fallback[of ?w ?st]
    by (simp add: example_world_def analysis_fails_def example_state_fields)
  have f: "diaryText ?st = []" "songTitle ?st = js ''Fly Me to the Moon''"
    "artistName ?st = js ''Sample Artist''" "moodScore' ?st = 30"
    "selectedTags ?st = [js ''Nostalgic'']"
    by (simp_all add: example_state_def fill_def example_draft_def)
  show ?thesis
    unfolding handleAnalyze_saved[OF example_state_guard n t]
    by (simp add: example_state_fields service_events_requests sort_js_single a f
        timestamp_created targetDate_examples fallbackAnalysis_def)
qed

text \<open>
  C6 (as amended). The two services catch their own exceptions. Two statements of the
  \<open>try\<close> block of \<open>handleAnalyze\<close> can throw: the read of \<open>analysis.imagePrompt\<close>, when
  \<open>analyzeMemory\<close> has returned \<open>null\<close>, and the write to the store inside \<open>saveMemories\<close>,
  which sets the list before it writes. In both cases exactly one alert (the generic
  localized notice) is added, the store keeps its content, the form is not reset and
  \<open>isAnalyzing\<close> is cleared. In the first case the list is what it was and no image is
  requested. In the second case the list in memory already holds the new record.
\<close>

theorem unexpected_failure:
  assumes "trim (songTitle st) \<noteq> []" "trim (artistName st) \<noteq> []"
    and "analysis_reply w = Analysis_json_null \<or> setItem_throws w"
  shows "memories (handleAnalyze w st) =
           (if analysis_reply w = Analysis_json_null then memories st
            else sort_js compareFn (created w st # memories st))
       \<and> (analysis_reply w \<noteq> Analysis_json_null \<longrightarrow>
            created w st \<in> set (memories (handleAnalyze w st)))
       \<and> (analysis_reply w = Analysis_json_null \<longrightarrow>
            filter is_request (events (handleAnalyze w st))
              = filter is_request (events st)
                @ [Request_analysis (diaryText st)
                     \<lparr> title = songTitle st, artist = artistName st \<rparr>
                     (moodScore' st) (selectedTags st) (targetDate (recordDate st))
                     (language' st)])
       \<and> storage (handleAnalyze w st) = storage st
       \<and> filter is_alert (events (handleAnalyze w st))
           = filter is_alert (events st) @ [Alert (errorMsg (language' st))]
       \<and> recordDate (handleAnalyze w st) = recordDate st
       \<and> diaryText (handleAnalyze w st) = diaryText st
       \<and> songTitle (handleAnalyze w st) = songTitle st
       \<and> artistName (handleAnalyze w st) = artistName st
       \<and> moodScore' (handleAnalyze w st) = moodScore' st
       \<and> selectedTags (handleAnalyze w st) = selectedTags st
       \<and> isAnalyzing (handleAnalyze w st) = False"
proof (cases "analysis_reply w = Analysis_json_null")
  case True
  show ?thesis
    unfolding handleAnalyze_null[OF assms(1,2) True]
    by (simp add: True)
next
  case False
  with assms(3) have t: "setItem_throws w"
    by simp
  show ?thesis
    unfolding handleAnalyze_thrown[OF assms(1,2) False t]
    by (simp add: False service_events_no_alert set_sort_js)
qed

text \<open>
  The claim as stated fails: after a write that throws, the list in memory is not what it
  was before the attempt.
\<close>

theorem failed_write_counterexample:
  "setItem_throws (example_world_full 1717200000000)
   \<and> memories (example_state (js ''2024-05-01'')) = []
   \<and> memories (handleAnalyze (example_world_full 1717200000000) (example_state (js ''2024-05-01'')))
       = [created (example_world_full 1717200000000) (example_state (js ''2024-05-01''))]
   \<and> filter is_alert
        (events (handleAnalyze (example_world_full 1717200000000) (example_state (js ''2024-05-01''))))
       = [Alert (js ''An error occurred. Please try again later.'')]"
proof -
  let ?w = "example_world_full 1717200000000" and ?st = "example_state (js ''2024-05-01'')"
  have t: "setItem_throws ?w"
    by (simp add: example_world_full_def)
  show ?thesis
    unfolding handleAnalyze_thrown[OF example_state_guard example_world_reply(2) t]
    by (simp add: t example_state_fields service_events_no_alert sort_js_single errorMsg_def)
qed

text \<open>
  On an empty diary: a write that throws, and an analysis that is \<open>null\<close>.
\<close>

theorem unexpected_failure_witness:
  "memories (handleAnalyze (example_world_full 1717200000000) (example_state (js ''2024-05-01'')))
     = [created (example_world_full 1717200000000) (example_state (js ''2024-05-01''))]
   \<and> storage (handleAnalyze (example_world_full 1717200000000) (example_state (js ''2024-05-01'')))
     = None
   \<and> filter is_alert
        (events (handleAnalyze (example_world_full 1717200000000) (example_state (js ''2024-05-01''))))
     = [Alert (js ''An error occurred. Please try again later.'')]
   \<and> songTitle (handleAnalyze (example_world_full 1717200000000) (example_state (js ''2024-05-01'')))
     = js ''Fly Me to the Moon''
   \<and> memories (handleAnalyze (example_world_null 1717200000000) (example_state (js ''2024-05-01'')))
     = []
   \<and> storage (handleAnalyze (example_world_null 1717200000000) (example_state (js ''2024-05-01'')))
     = None
   \<and> filter is_alert
        (events (handleAnalyze (example_world_null 1717200000000) (example_state (js ''2024-05-01''))))
     = [Alert (js ''An error occurred. Please try again later.'')]
   \<and> filter is_request
        (events (handleAnalyze (example_world_null 1717200000000) (example_state (js ''2024-05-01''))))
     = [Request_analysis [] \<lparr> title = js ''Fly Me to the Moon'', artist = js ''Sample Artist'' \<rparr>
          30 [js ''Nostalgic''] (Num 1714521600000) En]"
proof -
  let ?w = "example_world_full 1717200000000" and ?st = "example_state (js ''2024-05-01'')"
  let ?v = "example_world_null 1717200000000"
  have t: "analysis_reply ?w = Analysis_json_null \<or> setItem_throws ?w"
    by (simp add: example_world_full_def)
  have n: "analysis_reply ?v = Analysis_json_null"
    by (simp add: example_world_null_def)
  then have n': "analysis_reply ?v = Analysis_json_null \<or> setItem_throws ?v"
    by simp
  have f: "diaryText ?st = []" "songTitle ?st = js ''Fly Me to the Moon''"
    "artistName ?st = js ''Sample Artist''" "moodScore' ?st = 30"
    "selectedTags ?st = [js ''Nostalgic'']"
    by (simp_all add: example_state_def fill_def example_draft_def)
  from unexpected_failure[OF example_state_guard t] unexpected_failure[OF example_state_guard n']
  show ?thesis
    by (simp add: n example_world_reply example_state_fields f sort_js_single errorMsg_def
        targetDate_examples)
qed

section \<open>The calendar\<close>

subsection \<open>Years, months and days of the month\<close>

lemma DaysInYear_range: "DaysInYear y = 365 \<or> DaysInYear y = 366"
  by (simp add: DaysInYear_def)

lemma div_succ:
  fixes x n :: int
  assumes "0 < n"
  shows "(x + 1) div n = x div n + (if (x + 1) mod n = 0 then 1 else 0)"
proof -
  define q r where "q = x div n" and "r = x mod n"
  have x: "x = n * q + r" and r: "0 \<le> r" "r < n"
    using assms by (simp_all add: q_def r_def)
  show ?thesis
  proof (cases "r + 1 < n")
    case True
    have "x + 1 = n * q + (r + 1)" using x by simp
    from int_div_pos_eq[OF this] int_mod_pos_eq[OF this] True r
    show ?thesis by (simp add: q_def)
  next
    case False
    with r have "x + 1 = n * (q + 1) + 0" using x by (simp add: algebra_simps)
    from int_div_pos_eq[OF this] int_mod_pos_eq[OF this] assms
    show ?thesis by (simp add: q_def)
  qed
qed

lemma mod_shift:
  "(y - 1968) mod 4 = y mod (4::int)" "(y - 1900) mod 100 = y mod (100::int)"
  "(y - 1600) mod 400 = y mod (400::int)"
  using mod_mult_self2[of y 4 "-492"] mod_mult_self2[of y 100 "-19"]
    mod_mult_self2[of y 400 "-4"]
  by simp_all

lemma mod_4_100_400:
  "(y::int) mod 100 = 0 \<Longrightarrow> y mod 4 = 0" "(y::int) mod 400 = 0 \<Longrightarrow> y mod 100 = 0"
proof -
  have "(4::int) dvd 100" "(100::int) dvd 400" by simp_all
  then show "(y::int) mod 100 = 0 \<Longrightarrow> y mod 4 = 0" "(y::int) mod 400 = 0 \<Longrightarrow> y mod 100 = 0"
    by (meson dvd_trans mod_eq_0_iff_dvd)+
qed

lemma DayFromYear_Suc: "DayFromYear (y + 1) = DayFromYear y + DaysInYear y"
proof -
  have a: "(y + 1 - 1969) div 4 = (y - 1969) div 4 + (if y mod 4 = 0 then 1 else 0)"
    using div_succ[of 4 "y - 1969"] mod_shift(1)[of y] by (simp add: algebra_simps)
  have b: "(y + 1 - 1901) div 100 = (y - 1901) div 100 + (if y mod 100 = 0 then 1 else 0)"
    using div_succ[of 100 "y - 1901"] mod_shift(2)[of y] by (simp add: algebra_simps)
  have c: "(y + 1 - 1601) div 400 = (y - 1601) div 400 + (if y mod 400 = 0 then 1 else 0)"
    using div_succ[of 400 "y - 1601"] mod_shift(3)[of y] by (simp add: algebra_simps)
  consider (n4) "y mod 4 \<noteq> 0" | (n100) "y mod 4 = 0" "y mod 100 \<noteq> 0"
    | (n400) "y mod 4 = 0" "y mod 100 = 0" "y mod 400 \<noteq> 0"
    | (y400) "y mod 4 = 0" "y mod 100 = 0" "y mod 400 = 0"
    by argo
  then show ?thesis
  proof cases
    case n4
    with mod_4_100_400[of y] have "y mod 100 \<noteq> 0" "y mod 400 \<noteq> 0" by argo+
    with n4 show ?thesis
      unfolding DayFromYear_def DaysInYear_def a b c by simp
  next
    case n100
    with mod_4_100_400[of y] have "y mod 400 \<noteq> 0" by argo
    with n100 show ?thesis
      unfolding DayFromYear_def DaysInYear_def a b c by simp
  next
    case n400
    then show ?thesis
      unfolding DayFromYear_def DaysInYear_def a b c by simp
  next
    case y400
    then show ?thesis
      unfolding DayFromYear_def DaysInYear_def a b c by simp
  qed
qed

lemma DayFromYear_step: "DayFromYear y < DayFromYear (y + 1)"
  using DayFromYear_Suc[of y] DaysInYear_range[of y] by linarith

lemma DayFromYear_add: "DayFromYear y < DayFromYear (y + 1 + int k)"
proof (induction k)
  case 0
  then show ?case using DayFromYear_step[of y] by simp
next
  case (Suc k)
  have "DayFromYear (y + 1 + int k) < DayFromYear (y + 1 + int k + 1)"
    by (rule DayFromYear_step)
  with Suc show ?case by (simp add: algebra_simps)
qed

lemma DayFromYear_less: "y < y' \<Longrightarrow> DayFromYear y < DayFromYear y'"
  using DayFromYear_add[of y "nat (y' - y - 1)"] by simp

lemma DayFromYear_mono: "y \<le> y' \<Longrightarrow> DayFromYear y \<le> DayFromYear y'"
  using DayFromYear_less[of y y'] by (cases "y = y'") simp_all

lemma div_bounds:
  fixes x n :: int
  assumes "0 < n"
  shows "n * (x div n) \<le> x" "x < n * (x div n) + n"
proof -
  have "x = n * (x div n) + x mod n" by simp
  moreover have "0 \<le> x mod n" "x mod n < n" using assms by simp_all
  ultimately show "n * (x div n) \<le> x" "x < n * (x div n) + n" by linarith+
qed

lemma DayFromYear_bounds:
  "146097 * y - 287811596 \<le> 400 * DayFromYear y"
  "400 * DayFromYear y \<le> 146097 * y - 287810501"
proof -
  define a b c where "a = (y - 1969) div 4" and "b = (y - 1901) div 100"
    and "c = (y - 1601) div 400"
  have f: "4 * a \<le> y - 1969" "y - 1969 < 4 * a + 4"
    "100 * b \<le> y - 1901" "y - 1901 < 100 * b + 100"
    "400 * c \<le> y - 1601" "y - 1601 < 400 * c + 400"
    unfolding a_def b_def c_def by (simp_all add: div_bounds)
  have D: "DayFromYear y = 365 * y - 719050 + a - b + c"
    by (simp add: DayFromYear_def a_def b_def c_def)
  show "146097 * y - 287811596 \<le> 400 * DayFromYear y"
    using f D by linarith
  show "400 * DayFromYear y \<le> 146097 * y - 287810501"
    using f D by linarith
qed

lemma YearFromDay_spec:
  "DayFromYear (YearFromDay d) \<le> d \<and> d < DayFromYear (YearFromDay d + 1)"
proof -
  define k where "k = (400 * d) div 146097"
  define y1 y2 where "y1 = 1970 + k - 1" and "y2 = 1970 + k + 1 + 1"
  have k: "146097 * k \<le> 400 * d" "400 * d < 146097 * k + 146097"
    unfolding k_def by (simp_all add: div_bounds)
  have y: "y1 = k + 1969" "y2 = k + 1972"
    by (simp_all add: y1_def y2_def)
  have "DayFromYear y1 \<le> d"
    using DayFromYear_bounds(2)[of y1] k y by linarith
  moreover have "d < DayFromYear y2"
    using DayFromYear_bounds(1)[of y2] k y by linarith
  ultimately show ?thesis
    by (simp add: YearFromDay_def k_def Let_def y1_def y2_def)
qed

lemma YearFromDay_unique:
  assumes "DayFromYear y \<le> d" "d < DayFromYear (y + 1)"
  shows "YearFromDay d = y"
proof (rule ccontr)
  assume ne: "YearFromDay d \<noteq> y"
  have s: "DayFromYear (YearFromDay d) \<le> d" "d < DayFromYear (YearFromDay d + 1)"
    using YearFromDay_spec[of d] by simp_all
  show False
  proof (cases "YearFromDay d < y")
    case True
    then have "DayFromYear (YearFromDay d + 1) \<le> DayFromYear y"
      by (intro DayFromYear_mono) simp
    with s assms show False by linarith
  next
    case False
    with ne have "DayFromYear (y + 1) \<le> DayFromYear (YearFromDay d)"
      by (intro DayFromYear_mono) simp
    with s assms show False by linarith
  qed
qed

lemma Day_times: "Day (d * msPerDay) = d"
  by (simp add: Day_def msPerDay_def)

lemma InLeapYear_range: "InLeapYear t = 0 \<or> InLeapYear t = 1"
  by (simp add: InLeapYear_def)

lemma DayWithinYear_range:
  "0 \<le> DayWithinYear t \<and> DayWithinYear t < 365 + InLeapYear t"
proof -
  have "DayFromYear (YearFromTime t) \<le> Day t"
    "Day t < DayFromYear (YearFromTime t) + DaysInYear (YearFromTime t)"
    using YearFromDay_spec[of "Day t"] DayFromYear_Suc[of "YearFromTime t"]
    by (simp_all add: YearFromTime_def)
  then show ?thesis
    using DaysInYear_range[of "YearFromTime t"]
    by (auto simp: DayWithinYear_def InLeapYear_def)
qed

lemma MonthFromTime_range: "0 \<le> MonthFromTime t \<and> MonthFromTime t \<le> 11"
  by (simp add: MonthFromTime_def Let_def)

lemma monthStart_MonthFromTime:
  "monthStart (InLeapYear t) (MonthFromTime t) = DayWithinYear t - DateFromTime t + 1"
  by (simp add: monthStart_def MonthFromTime_def DateFromTime_def Let_def)

lemma MakeDay_first:
  "MakeDay (YearFromTime t) (MonthFromTime t) 1 = first_day_of_month t"
proof -
  have "MonthFromTime t div 12 = 0" "MonthFromTime t mod 12 = MonthFromTime t"
    using MonthFromTime_range[of t] by simp_all
  then show ?thesis
    using monthStart_MonthFromTime[of t]
    by (simp add: MakeDay_def first_day_of_month_def DayWithinYear_def InLeapYear_def)
qed

lemma month_cases:
  fixes m :: int
  assumes "0 \<le> m" "m \<le> 11"
  shows "m = 0 \<or> m = 1 \<or> m = 2 \<or> m = 3 \<or> m = 4 \<or> m = 5 \<or> m = 6 \<or> m = 7 \<or> m = 8
         \<or> m = 9 \<or> m = 10 \<or> m = 11"
proof -
  have "m \<le> 3 \<or> (4 \<le> m \<and> m \<le> 7) \<or> 8 \<le> m" by linarith
  moreover have "m \<le> 3 \<Longrightarrow> m = 0 \<or> m = 1 \<or> m = 2 \<or> m = 3" using assms by linarith
  moreover have "4 \<le> m \<and> m \<le> 7 \<Longrightarrow> m = 4 \<or> m = 5 \<or> m = 6 \<or> m = 7" by linarith
  moreover have "8 \<le> m \<Longrightarrow> m = 8 \<or> m = 9 \<or> m = 10 \<or> m = 11" using assms by linarith
  ultimately show ?thesis by blast
qed

lemma DaysInYear_InLeapYear: "DaysInYear (YearFromTime t) = 365 + InLeapYear t"
  using DaysInYear_range[of "YearFromTime t"] by (auto simp: InLeapYear_def)

lemma within_year:
  fixes l m j :: int
  assumes "l = 0 \<or> l = 1" "0 \<le> m" "m \<le> 11" "1 \<le> j" "j \<le> month_length l m"
  shows "0 \<le> monthStart l m + j - 1 \<and> monthStart l m + j - 1 < 365 + l"
  using month_cases[OF assms(2,3)] assms(1,4,5)
  by (elim disjE) (simp_all add: monthStart_def month_length_def)

lemma cascade:
  assumes "DayWithinYear T = monthStart l m + j - 1" "InLeapYear T = l" "l = 0 \<or> l = 1"
    "0 \<le> m" "m \<le> 11" "1 \<le> j" "j \<le> month_length l m"
  shows "MonthFromTime T = m \<and> DateFromTime T = j"
proof -
  have M: "MonthFromTime T = m"
    using month_cases[OF assms(4,5)] assms(1,2,3,6,7)
    by (elim disjE) (simp_all add: MonthFromTime_def Let_def monthStart_def month_length_def)
  have "DateFromTime T = j"
    using month_cases[OF assms(4,5)] assms(1,2,3,6,7)
    unfolding DateFromTime_def M Let_def
    by (elim disjE) (simp_all add: monthStart_def)
  with M show ?thesis by simp
qed

lemma first_day_eq:
  "first_day_of_month t
     = DayFromYear (YearFromTime t) + monthStart (InLeapYear t) (MonthFromTime t)"
  using monthStart_MonthFromTime[of t]
  by (simp add: first_day_of_month_def DayWithinYear_def)

lemma day_of_month:
  assumes "1 \<le> j" "j \<le> month_length (InLeapYear t) (MonthFromTime t)"
  shows "YearFromTime ((first_day_of_month t + j - 1) * msPerDay) = YearFromTime t
       \<and> MonthFromTime ((first_day_of_month t + j - 1) * msPerDay) = MonthFromTime t
       \<and> DateFromTime ((first_day_of_month t + j - 1) * msPerDay) = j"
proof -
  let ?T = "(first_day_of_month t + j - 1) * msPerDay"
  let ?w = "monthStart (InLeapYear t) (MonthFromTime t) + j - 1"
  have l: "InLeapYear t = 0 \<or> InLeapYear t = 1"
    by (rule InLeapYear_range)
  have m: "0 \<le> MonthFromTime t" "MonthFromTime t \<le> 11"
    using MonthFromTime_range[of t] by simp_all
  have D: "Day ?T = DayFromYear (YearFromTime t) + ?w"
    by (simp add: Day_times first_day_eq)
  have w: "0 \<le> ?w" "?w < 365 + InLeapYear t"
    using within_year[OF l m assms] by simp_all
  have "DayFromYear (YearFromTime t) \<le> Day ?T" "Day ?T < DayFromYear (YearFromTime t + 1)"
    using w D DayFromYear_Suc[of "YearFromTime t"] DaysInYear_InLeapYear[of t]
    by linarith+
  then have Y: "YearFromTime ?T = YearFromTime t"
    using YearFromDay_unique[of "YearFromTime t" "Day ?T"] by (simp add: YearFromTime_def)
  then have L: "InLeapYear ?T = InLeapYear t"
    by (simp add: InLeapYear_def)
  have W: "DayWithinYear ?T = ?w"
    using D Y by (simp add: DayWithinYear_def)
  from cascade[OF W L l m assms] Y show ?thesis
    by simp
qed

lemma month_length_range: "l = 0 \<or> l = 1 \<Longrightarrow> 28 \<le> month_length l m \<and> month_length l m \<le> 31"
  by (auto simp: month_length_def)

lemma MakeDay_last:
  "MakeDay (YearFromTime t) (MonthFromTime t + 1) 0
     = first_day_of_month t + month_length (InLeapYear t) (MonthFromTime t) - 1"
proof -
  have l: "InLeapYear t = 0 \<or> InLeapYear t = 1"
    by (rule InLeapYear_range)
  have m: "0 \<le> MonthFromTime t" "MonthFromTime t \<le> 11"
    using MonthFromTime_range[of t] by simp_all
  show ?thesis
  proof (cases "MonthFromTime t = 11")
    case True
    then show ?thesis
      using DayFromYear_Suc[of "YearFromTime t"] DaysInYear_InLeapYear[of t]
      by (simp add: MakeDay_def first_day_eq monthStart_def month_length_def)
  next
    case False
    with m have "(MonthFromTime t + 1) div 12 = 0"
      "(MonthFromTime t + 1) mod 12 = MonthFromTime t + 1"
      by simp_all
    then show ?thesis
      using month_cases[OF m] False l
      unfolding MakeDay_def first_day_eq Let_def
      by (elim disjE) (simp_all add: monthStart_def month_length_def InLeapYear_def)
  qed
qed

subsection \<open>Turning the months\<close>

lemma Day_plus:
  assumes "0 \<le> r" "r < msPerDay"
  shows "Day (d * msPerDay + r) = d" "TimeWithinDay (d * msPerDay + r) = r"
  using assms by (simp_all add: Day_def TimeWithinDay_def msPerDay_def)

lemma MakeDay_fields:
  assumes "1 \<le> j" "j \<le> 28" "0 \<le> r" "r < msPerDay"
  shows "YearFromTime (MakeDay y m j * msPerDay + r) = y + m div 12
       \<and> MonthFromTime (MakeDay y m j * msPerDay + r) = m mod 12
       \<and> DateFromTime (MakeDay y m j * msPerDay + r) = j"
proof -
  let ?T = "MakeDay y m j * msPerDay + r"
  define ym mn l where "ym = y + m div 12" and "mn = m mod 12"
    and "l = (if DaysInYear ym = 366 then 1 else 0::int)"
  have l: "l = 0 \<or> l = 1"
    by (simp add: l_def)
  have mn: "0 \<le> mn" "mn \<le> 11"
    by (simp_all add: mn_def)
  have j: "j \<le> month_length l mn"
    using month_length_range[OF l, of mn] assms(2) by linarith
  have D: "Day ?T = DayFromYear ym + (monthStart l mn + j - 1)"
    by (simp add: Day_plus[OF assms(3,4)] MakeDay_def ym_def mn_def l_def Let_def)
  have w: "0 \<le> monthStart l mn + j - 1" "monthStart l mn + j - 1 < 365 + l"
    using within_year[OF l mn assms(1) j] by simp_all
  have dy: "DaysInYear ym = 365 + l"
    using DaysInYear_range[of ym] by (auto simp: l_def)
  have "DayFromYear ym \<le> Day ?T" "Day ?T < DayFromYear (ym + 1)"
    using w D DayFromYear_Suc[of ym] dy by linarith+
  then have Y: "YearFromTime ?T = ym"
    using YearFromDay_unique[of ym "Day ?T"] by (simp add: YearFromTime_def)
  then have L: "InLeapYear ?T = l"
    by (simp add: InLeapYear_def l_def)
  have W: "DayWithinYear ?T = monthStart l mn + j - 1"
    using D Y by (simp add: DayWithinYear_def)
  from cascade[OF W L l mn assms(1) j] Y show ?thesis
    by (simp add: ym_def mn_def)
qed

lemma MakeDay_carry: "MakeDay (y + a div 12) (a mod 12 + b) j = MakeDay y (a + b) j"
proof -
  define c q where "c = a mod 12 + b" and "q = a div 12"
  have e: "a + b = c + 12 * q"
    by (simp add: c_def q_def)
  have "(a + b) div 12 = q + c div 12" "(a + b) mod 12 = c mod 12"
    unfolding e by simp_all
  then show ?thesis
    by (simp add: MakeDay_def Let_def c_def q_def add.assoc)
qed

lemma MakeDay_range:
  assumes "0 \<le> y + m div 12" "y + m div 12 \<le> 10000" "1 \<le> j" "j \<le> 28"
  shows "- 720000 \<le> MakeDay y m j" "MakeDay y m j \<le> 3000000"
proof -
  define ym mn l where "ym = y + m div 12" and "mn = m mod 12"
    and "l = (if DaysInYear ym = 366 then 1 else 0::int)"
  have l: "l = 0 \<or> l = 1"
    by (simp add: l_def)
  have mn: "0 \<le> mn" "mn \<le> 11"
    by (simp_all add: mn_def)
  have j: "j \<le> month_length l mn"
    using month_length_range[OF l, of mn] assms(4) by linarith
  have w: "0 \<le> monthStart l mn + j - 1" "monthStart l mn + j - 1 < 365 + l"
    using within_year[OF l mn assms(3) j] by simp_all
  have M: "MakeDay y m j = DayFromYear ym + (monthStart l mn + j - 1)"
    by (simp add: MakeDay_def ym_def mn_def l_def Let_def)
  have y: "0 \<le> ym" "ym \<le> 10000"
    using assms(1,2) by (simp_all add: ym_def)
  show "- 720000 \<le> MakeDay y m j"
    using DayFromYear_bounds(1)[of ym] w l y M by linarith
  show "MakeDay y m j \<le> 3000000"
    using DayFromYear_bounds(2)[of ym] w l y M by linarith
qed

lemma changeMonth_step:
  assumes "1 \<le> j" "j \<le> 28" "0 \<le> r" "r < msPerDay"
    and "0 \<le> y + (m + off) div 12" "y + (m + off) div 12 \<le> 10000"
  shows "changeMonth off (Num (MakeDay y m j * msPerDay + r))
       = Num (MakeDay y (m + off) j * msPerDay + r)"
proof -
  let ?T = "MakeDay y m j * msPerDay + r"
  note f = MakeDay_fields[OF assms(1-4), of y m]
  have c: "MakeDay (y + m div 12) (m mod 12 + off) j = MakeDay y (m + off) j"
    by (rule MakeDay_carry)
  have b: "- 720000 \<le> MakeDay y (m + off) j" "MakeDay y (m + off) j \<le> 3000000"
    using MakeDay_range[OF assms(5,6,1,2)] by simp_all
  have "\<bar>MakeDay y (m + off) j * msPerDay + r\<bar> \<le> 8640000000000000"
    using b assms(3,4) by (simp add: msPerDay_def abs_le_iff)
  then show ?thesis
    using f c by (simp add: changeMonth_def Day_plus[OF assms(3,4)] TimeClip_def)
qed

lemma changeMonth_back:
  assumes "1 \<le> j" "j \<le> 28" "0 \<le> r" "r < msPerDay"
    and "int n \<le> 12 * y + m" "12 * y + m \<le> 120000"
  shows "(changeMonth (- 1) ^^ n) (Num (MakeDay y m j * msPerDay + r))
       = Num (MakeDay y (m - int n) j * msPerDay + r)"
  using assms(5)
proof (induction n)
  case 0
  then show ?case by simp
next
  case (Suc n)
  define a where "a = m - int n + - 1"
  have "(a + 12 * y) div 12 = y + a div 12"
    by simp
  moreover have "0 \<le> a + 12 * y" "a + 12 * y \<le> 120000"
    using Suc.prems assms(6) by (simp_all add: a_def)
  then have "0 \<le> (a + 12 * y) div 12" "(a + 12 * y) div 12 \<le> 120000 div 12"
    by (simp_all add: pos_imp_zdiv_nonneg_iff zdiv_mono1)
  ultimately have lo: "0 \<le> y + (m - int n + - 1) div 12"
    and hi: "y + (m - int n + - 1) div 12 \<le> 10000"
    by (simp_all add: a_def)
  from Suc have "(changeMonth (- 1) ^^ n) (Num (MakeDay y m j * msPerDay + r))
       = Num (MakeDay y (m - int n) j * msPerDay + r)"
    by simp
  then show ?case
    using changeMonth_step[OF assms(1-4) lo hi] by (simp add: algebra_simps)
qed

subsection \<open>The grid\<close>

lemma getFirstDayOfMonth_eq:
  assumes "YearFromTime t < 0 \<or> 99 < YearFromTime t" "month_representable t"
  shows "getFirstDayOfMonth (Num t) = Num (WeekDay (first_day_of_month t * msPerDay))"
  using assms MakeDay_first[of t]
  by (auto simp: getFirstDayOfMonth_def MakeFullYear_def TimeClip_def month_representable_def)

lemma getDaysInMonth_eq:
  assumes "YearFromTime t < 0 \<or> 99 < YearFromTime t" "month_representable t"
  shows "getDaysInMonth (Num t) = Num (month_length (InLeapYear t) (MonthFromTime t))"
proof -
  let ?n = "month_length (InLeapYear t) (MonthFromTime t)"
  have n: "1 \<le> ?n" "?n \<le> ?n"
    using month_length_range[OF InLeapYear_range[of t], of "MonthFromTime t"] by simp_all
  have "Date_of_fields (getFullYear (Num t)) (jsplus (getMonth (Num t)) (Num 1)) (Num 0)
      = Num ((first_day_of_month t + ?n - 1) * msPerDay)"
    using assms MakeDay_last[of t]
    by (auto simp: MakeFullYear_def TimeClip_def month_representable_def)
  then show ?thesis
    using day_of_month[OF n] by (simp add: getDaysInMonth_def)
qed

lemma WeekDay_range: "0 \<le> WeekDay t \<and> WeekDay t < 7"
  by (simp add: WeekDay_def)

text \<open>
  Let the calendar show the month that contains \<open>t\<close>, in a year outside 0 to 99, with the
  first and the last day of the month within the range of time values. Then the grid is
  exactly \<open>k\<close> empty cells followed by the cells of the days 1 to the length of the
  month, where \<open>k\<close> is the weekday (Sunday = 0) of the first day of that month: the cells
  at the indices below \<open>k\<close> are empty and the cell at index \<open>k\<close> is the cell of day 1.
  (The first day is the day \<open>date - 1\<close> days before \<open>t\<close>; it has the year and month of
  \<open>t\<close> and the date 1.)
\<close>

lemma leading_cells_outside_years_0_to_99:
  assumes "YearFromTime t < 0 \<or> 99 < YearFromTime t" "month_representable t"
  shows "renderCalendar (Num t) ms =
           map Empty_cell [0..<nat (WeekDay (first_day_of_month t * msPerDay))]
           @ map (\<lambda>day. Day_cell day (getMemoriesForDate (Num t) ms day))
               [1..month_length (InLeapYear t) (MonthFromTime t)]
       \<and> YearFromTime (first_day_of_month t * msPerDay) = YearFromTime t
       \<and> MonthFromTime (first_day_of_month t * msPerDay) = MonthFromTime t
       \<and> DateFromTime (first_day_of_month t * msPerDay) = 1
       \<and> 0 \<le> WeekDay (first_day_of_month t * msPerDay)
       \<and> WeekDay (first_day_of_month t * msPerDay) < 7
       \<and> 28 \<le> month_length (InLeapYear t) (MonthFromTime t)
       \<and> month_length (InLeapYear t) (MonthFromTime t) \<le> 31
       \<and> (\<forall>i < nat (WeekDay (first_day_of_month t * msPerDay)).
             renderCalendar (Num t) ms ! i = Empty_cell i)
       \<and> renderCalendar (Num t) ms ! nat (WeekDay (first_day_of_month t * msPerDay))
           = Day_cell 1 (getMemoriesForDate (Num t) ms 1)"
proof -
  let ?k = "nat (WeekDay (first_day_of_month t * msPerDay))"
  let ?n = "month_length (InLeapYear t) (MonthFromTime t)"
  let ?days = "map (\<lambda>day. Day_cell day (getMemoriesForDate (Num t) ms day)) [1..?n]"
  have n: "28 \<le> ?n" "?n \<le> 31"
    using month_length_range[OF InLeapYear_range[of t], of "MonthFromTime t"] by simp_all
  have r: "renderCalendar (Num t) ms = map Empty_cell [0..<?k] @ ?days"
    using getFirstDayOfMonth_eq[OF assms] getDaysInMonth_eq[OF assms]
    by (simp add: renderCalendar_def Let_def)
  have first: "YearFromTime (first_day_of_month t * msPerDay) = YearFromTime t
      \<and> MonthFromTime (first_day_of_month t * msPerDay) = MonthFromTime t
      \<and> DateFromTime (first_day_of_month t * msPerDay) = 1"
    using day_of_month[of 1 t] n by simp
  have "[1..?n] = 1 # [2..?n]"
    using n by (simp add: upto_rec1)
  then have d: "?days ! 0 = Day_cell 1 (getMemoriesForDate (Num t) ms 1)"
    by simp
  have e: "\<forall>i < ?k. (map Empty_cell [0..<?k] @ ?days) ! i = Empty_cell i"
    by (simp add: nth_append)
  have "(map Empty_cell [0..<?k] @ ?days) ! ?k = ?days ! 0"
    by (simp add: nth_append)
  with r d e first n WeekDay_range[of "first_day_of_month t * msPerDay"] show ?thesis
    by simp
qed

lemmas date_defs = MakeDay_def MakeFullYear_def TimeClip_def msPerDay_def DayFromYear_def
  DaysInYear_def monthStart_def YearFromTime_def YearFromDay_def Day_def DayWithinYear_def
  InLeapYear_def MonthFromTime_def DateFromTime_def WeekDay_def

lemma may_2024:
  "YearFromTime 1715000000000 = 2024" "MonthFromTime 1715000000000 = 4"
  "DateFromTime 1715000000000 = 6" "InLeapYear 1715000000000 = 1"
  "first_day_of_month 1715000000000 = 19844"
  "WeekDay (19844 * msPerDay) = 3"
  by (simp_all add: first_day_of_month_def date_defs Let_def)

text \<open>
  May 2024 has 31 days and starts on a Wednesday: 3 empty cells, then day 1.
\<close>

lemma leading_cells_may_2024:
  "renderCalendar (Num 1715000000000) [] =
     map Empty_cell [0..<3] @ map (\<lambda>day. Day_cell day []) [1..31]
   \<and> length (renderCalendar (Num 1715000000000) []) = 34
   \<and> renderCalendar (Num 1715000000000) [] ! 3 = Day_cell 1 []"
proof -
  have y: "YearFromTime 1715000000000 < 0 \<or> 99 < YearFromTime 1715000000000"
    by (simp add: may_2024)
  have m: "month_representable 1715000000000"
    by (simp add: month_representable_def may_2024 month_length_def msPerDay_def)
  from leading_cells_outside_years_0_to_99[OF y m, of "[]"]
  have r: "renderCalendar (Num 1715000000000) [] =
     map Empty_cell [0..<3] @ map (\<lambda>day. Day_cell day []) [1..31]"
    by (simp add: may_2024 month_length_def getMemoriesForDate_def)
  have "[1..31] = 1 # [2..31]"
    by (simp add: upto_rec1)
  then have "(map Empty_cell [0..<3] @ map (\<lambda>day. Day_cell day []) [1..31]) ! 3 = Day_cell 1 []"
    by (simp add: nth_append)
  moreover have "length (map Empty_cell [0..<3] @ map (\<lambda>day. Day_cell day []) [1..31]) = 34"
    by simp
  ultimately show ?thesis
    unfolding r by blast
qed

subsection \<open>The years 0 to 99\<close>

lemma turned_back_to_december_99:
  "(changeMonth (- 1) ^^ 23094) (Num 1718443800000) = Num (- 59012893800000)"
proof -
  have a: "MakeDay 2024 5 15 = 19889" "MakeDay 2024 (- 23089) 15 = - 683020"
    by (simp_all add: date_defs)
  show ?thesis
    using changeMonth_back[of 15 34200000 23094 2024 5]
    by (simp add: a msPerDay_def)
qed

lemma december_99:
  "YearFromTime (- 59012893800000) = 99" "MonthFromTime (- 59012893800000) = 11"
  "DateFromTime (- 59012893800000) = 15"
  "YearFromTime (first_day_of_month (- 59012893800000) * msPerDay) = 99"
  "MonthFromTime (first_day_of_month (- 59012893800000) * msPerDay) = 11"
  "DateFromTime (first_day_of_month (- 59012893800000) * msPerDay) = 1"
  "WeekDay (first_day_of_month (- 59012893800000) * msPerDay) = 2"
  "getFirstDayOfMonth (Num (- 59012893800000)) = Num 3"
  "getDaysInMonth (Num (- 59012893800000)) = Num 31"
  by (simp_all add: first_day_of_month_def getFirstDayOfMonth_def getDaysInMonth_def
      date_defs Let_def)

lemma targetDate_1999: "targetDate (js ''1999-12-15'') = Num 945216000000"
  by (simp add: targetDate_def js_def split_def Number_def trim_def isWhiteSpace_def
      isDigit_def decimal_value_def element_def MakeDay_def MakeFullYear_def TimeClip_def
      msPerDay_def DayFromYear_def DaysInYear_def monthStart_def)

lemma december_1999:
  "YearFromTime 945216000000 = 1999" "MonthFromTime 945216000000 = 11"
  "DateFromTime 945216000000 = 15"
  by (simp_all add: date_defs Let_def)

lemma example_state_date: "recordDate (example_state d) = d"
  by (simp add: example_state_def fill_def example_draft_def)

text \<open>
  C9. The claim: the grid has exactly \<open>k\<close> empty cells before the cell of day 1, where
  \<open>k\<close> is the weekday (Sunday = 0) of the first day of the month shown. The code does not
  do this in the years 0 to 99. \<open>getFirstDayOfMonth\<close> rebuilds the first day from the year
  and the month of \<open>currentDate\<close> with \<open>new Date(year, month, 1)\<close>, and that constructor
  takes a year from 0 to 99 to mean 1900 + year. The other readers of \<open>currentDate\<close> take
  its year as it is: \<open>changeMonth\<close> (through \<open>setMonth\<close>), the header and
  \<open>getMemoriesForDate\<close>.

  The input: the calendar is opened on 15 June 2024 at 09:30 and turned back 23094
  months; the diary holds one record, made with the date field at 15 December 1999. The
  month shown is December of the year 99, whose first day is a Tuesday (\<open>k = 2\<close>). The
  grid has three empty cells, so the cell at index 2 is empty, where the claim puts day
  1: the grid is aligned as December 1999, which starts on a Wednesday. No cell shows
  the record, whose year is 1999: the cells are filled for the year 99.
\<close>

theorem calendar_december_99:
  "(changeMonth (- 1) ^^ 23094) (Num 1718443800000) = Num (- 59012893800000)
   \<and> getFullYear (Num (- 59012893800000)) = Num 99
   \<and> getMonth (Num (- 59012893800000)) = Num 11
   \<and> YearFromTime (first_day_of_month (- 59012893800000) * msPerDay) = 99
   \<and> MonthFromTime (first_day_of_month (- 59012893800000) * msPerDay) = 11
   \<and> DateFromTime (first_day_of_month (- 59012893800000) * msPerDay) = 1
   \<and> WeekDay (first_day_of_month (- 59012893800000) * msPerDay) = 2
   \<and> getFullYear (Date_of_number (timestamp
         (created (example_world 1717200000000) (example_state (js ''1999-12-15''))))) = Num 1999
   \<and> renderCalendar (Num (- 59012893800000))
         [created (example_world 1717200000000) (example_state (js ''1999-12-15''))]
       = map Empty_cell [0..<3] @ map (\<lambda>day. Day_cell day []) [1..31]
   \<and> renderCalendar (Num (- 59012893800000))
         [created (example_world 1717200000000) (example_state (js ''1999-12-15''))] ! 2
       = Empty_cell 2"
proof -
  let ?m = "created (example_world 1717200000000) (example_state (js ''1999-12-15''))"
  have ts: "timestamp ?m = Num 945216000000"
    by (simp add: timestamp_created example_state_date targetDate_1999)
  have y: "getFullYear (Date_of_number (timestamp ?m)) = Num 1999"
    by (simp add: ts TimeClip_def december_1999)
  have g: "getMemoriesForDate (Num (- 59012893800000)) [?m] day = []" for day
    by (simp add: getMemoriesForDate_def y december_99)
  have r: "renderCalendar (Num (- 59012893800000)) [?m]
      = map Empty_cell [0..<3] @ map (\<lambda>day. Day_cell day []) [1..31]"
    by (simp add: renderCalendar_def december_99 g)
  have n: "(map Empty_cell [0..<3] @ map (\<lambda>day. Day_cell day []) [1..31]) ! 2 = Empty_cell 2"
    by (simp add: nth_append)
  show ?thesis
    unfolding r n by (simp add: turned_back_to_december_99 december_99 y)
qed

section \<open>JSON: printing and parsing\<close>

lemma hexval_hexdigit: "x < 16 \<Longrightarrow> hexval (hexdigit x) = Some x"
  by (auto simp: hexval_def hexdigit_def)

lemma hex_digits_value:
  fixes c :: nat
  assumes "c < 65536"
  shows "4096 * (c div 4096 mod 16) + 256 * (c div 256 mod 16) + 16 * (c div 16 mod 16)
         + c mod 16 = c"
proof -
  have e: "c div 256 = c div 16 div 16" "c div 4096 = c div 16 div 16 div 16"
    by (simp_all add: div_mult2_eq[symmetric])
  have "c div 16 div 16 div 16 < 16"
    using assms by (simp add: div_mult2_eq[symmetric])
  then have a: "c div 16 div 16 div 16 mod 16 = c div 16 div 16 div 16"
    by simp
  have "c = 16 * (c div 16) + c mod 16"
    by simp
  moreover have "c div 16 = 16 * (c div 16 div 16) + c div 16 mod 16"
    by simp
  moreover have "c div 16 div 16 = 16 * (c div 16 div 16 div 16) + c div 16 div 16 mod 16"
    by simp
  ultimately show ?thesis
    unfolding e a by linarith
qed

declare parse_chars.simps [simp del]

lemma parse_chars_quote: "parse_chars (34 # cs) = Some ([], cs)"
  by (simp add: parse_chars.simps)

lemma parse_chars_plain:
  "c \<noteq> 34 \<Longrightarrow> c \<noteq> 92 \<Longrightarrow> \<not> c < 32 \<Longrightarrow> parse_chars (c # cs) = prepend c (parse_chars cs)"
  by (simp add: parse_chars.simps)

lemma parse_chars_escape:
  "unescape e = Some u \<Longrightarrow> e \<noteq> 117 \<Longrightarrow> parse_chars (92 # e # cs) = prepend u (parse_chars cs)"
  by (simp add: parse_chars.simps)

lemma parse_chars_u:
  "hexval h1 = Some a \<Longrightarrow> hexval h2 = Some b \<Longrightarrow> hexval h3 = Some c \<Longrightarrow> hexval h4 = Some d \<Longrightarrow>
     parse_chars (92 # 117 # h1 # h2 # h3 # h4 # cs)
       = prepend (4096 * a + 256 * b + 16 * c + d) (parse_chars cs)"
  by (simp add: parse_chars.simps)

lemma parse_UnicodeEscape:
  assumes "c < 65536"
  shows "parse_chars (UnicodeEscape c @ t) = prepend c (parse_chars t)"
proof -
  have h: "c div 4096 mod 16 < 16" "c div 256 mod 16 < 16" "c div 16 mod 16 < 16" "c mod 16 < 16"
    by simp_all
  note e = parse_chars_u[OF hexval_hexdigit[OF h(1)] hexval_hexdigit[OF h(2)]
      hexval_hexdigit[OF h(3)] hexval_hexdigit[OF h(4)], of t,
      unfolded hex_digits_value[OF assms]]
  show ?thesis
    by (simp only: UnicodeEscape_def append.simps e)
qed

lemma parse_quote_unit: "parse_chars (quote_unit c @ t) = prepend c (parse_chars t)"
proof -
  consider (short) "c = 8 \<or> c = 9 \<or> c = 10 \<or> c = 12 \<or> c = 13 \<or> c = 34 \<or> c = 92"
    | (esc) "\<not> (c = 8 \<or> c = 9 \<or> c = 10 \<or> c = 12 \<or> c = 13 \<or> c = 34 \<or> c = 92)"
        "c < 32 \<or> isLeadingSurrogate c \<or> isTrailingSurrogate c"
    | (plain) "\<not> (c = 8 \<or> c = 9 \<or> c = 10 \<or> c = 12 \<or> c = 13 \<or> c = 34 \<or> c = 92)"
        "\<not> (c < 32 \<or> isLeadingSurrogate c \<or> isTrailingSurrogate c)"
    by blast
  then show ?thesis
  proof cases
    case short
    then show ?thesis
      by (elim disjE) (simp_all add: quote_unit_def unescape_def parse_chars_escape)
  next
    case esc
    then have "c < 65536"
      by (auto simp: isLeadingSurrogate_def isTrailingSurrogate_def)
    from parse_UnicodeEscape[OF this] esc show ?thesis
      by (simp add: quote_unit_def)
  next
    case plain
    then show ?thesis
      by (simp add: quote_unit_def parse_chars_plain)
  qed
qed

lemma parse_quote_units:
  "parse_chars (quote_units s @ 34 # rest) = Some (s, rest)"
proof (induction s rule: quote_units.induct)
  case 1
  show ?case by (simp add: parse_chars_quote)
next
  case (2 c)
  show ?case by (simp add: parse_quote_unit prepend_def parse_chars_quote)
next
  case (3 c d cs)
  show ?case
  proof (cases "isLeadingSurrogate c \<and> isTrailingSurrogate d")
    case True
    then have q: "quote_units (c # d # cs) = c # d # quote_units cs"
      by simp
    from True have c: "c \<noteq> 34" "c \<noteq> 92" "\<not> c < 32" and d: "d \<noteq> 34" "d \<noteq> 92" "\<not> d < 32"
      by (simp_all add: isLeadingSurrogate_def isTrailingSurrogate_def)
    from 3(1)[OF True] show ?thesis
      unfolding q by (simp add: parse_chars_plain[OF c] parse_chars_plain[OF d] prepend_def)
  next
    case False
    then have "(isLeadingSurrogate c \<and> isTrailingSurrogate d) = False"
      by simp
    then have q: "quote_units (c # d # cs) = quote_unit c @ quote_units (d # cs)"
      by (simp only: quote_units.simps if_False)
    from 3(2)[OF False] show ?thesis
      unfolding q by (simp add: parse_quote_unit prepend_def)
  qed
qed

lemma parse_QuoteJSONString:
  "QuoteJSONString s @ rest = 34 # quote_units s @ 34 # rest"
  by (simp add: QuoteJSONString_def)

lemma digits_of_leading: "n \<noteq> 0 \<Longrightarrow> hd (digits_of n) \<noteq> 48"
proof (induction n rule: digits_of.induct)
  case (1 n)
  show ?case
  proof (cases "n < 10")
    case True
    with 1(2) show ?thesis
      by (subst digits_of.simps) simp
  next
    case False
    then have "n div 10 \<noteq> 0" by simp
    with 1(1) False have "hd (digits_of (n div 10)) \<noteq> 48" by simp
    moreover have "digits_of (n div 10) \<noteq> []"
      using digits_of_digits by blast
    ultimately show ?thesis
      using False by (subst digits_of.simps) simp
  qed
qed

lemma digits_of_0: "digits_of 0 = [48]"
  by (subst digits_of.simps) simp

lemma takeWhile_digits:
  assumes "list_all isDigit ds" "number_end rest"
  shows "takeWhile isDigit (ds @ rest) = ds"
proof -
  have "takeWhile isDigit rest = []"
    using assms(2) by (cases rest) (simp_all add: number_end_def)
  moreover have "takeWhile isDigit (ds @ rest) = ds @ takeWhile isDigit rest"
    using assms(1) by (intro takeWhile_append2) (simp add: list_all_iff)
  ultimately show ?thesis by simp
qed

lemma integer_part_digits:
  assumes "ds \<noteq> []" "list_all isDigit ds" "hd ds = 48 \<longrightarrow> ds = [48]" "number_end rest"
  shows "integer_part (ds @ rest) = ds"
  using assms takeWhile_digits[OF assms(2,4)]
  by (cases ds) (auto simp: integer_part_def)

lemma number_end_parts:
  assumes "number_end rest"
  shows "fraction_part rest = []" "exponent_part rest = []"
  using assms by (auto simp: number_end_def fraction_part_def exponent_part_def)

lemma parse_number_digits:
  assumes "ds \<noteq> []" "list_all isDigit ds" "hd ds = 48 \<longrightarrow> ds = [48]" "number_end rest"
  shows "parse_number (ds @ rest) = Some (JNum (Num (decimal_value ds)), rest)"
    and "parse_number (45 # ds @ rest) = Some (JNum (Num (- decimal_value ds)), rest)"
proof -
  have h: "hd ds \<noteq> 45"
    using assms(1,2) by (cases ds) (simp_all add: isDigit_def)
  note p = integer_part_digits[OF assms] number_end_parts[OF assms(4)]
  show "parse_number (ds @ rest) = Some (JNum (Num (decimal_value ds)), rest)"
    using h assms(1) by (simp add: parse_number_def p Let_def)
  show "parse_number (45 # ds @ rest) = Some (JNum (Num (- decimal_value ds)), rest)"
    using assms(1) by (simp add: parse_number_def p Let_def)
qed

lemma parse_number_toString:
  assumes "number_end rest"
  shows "parse_number (toString n @ rest) = Some (JNum (Num n), rest)"
proof (cases "n < 0")
  case True
  let ?ds = "digits_of (nat (- n))"
  have "nat (- n) \<noteq> 0" using True by simp
  then have "hd ?ds = 48 \<longrightarrow> ?ds = [48]"
    using digits_of_leading by blast
  from parse_number_digits(2)[OF _ _ this assms] digits_of_digits[of "nat (- n)"] True
  show ?thesis
    by (simp add: toString_def decimal_value_digits_of)
next
  case False
  let ?ds = "digits_of (nat n)"
  have "hd ?ds = 48 \<longrightarrow> ?ds = [48]"
    using digits_of_leading[of "nat n"] digits_of_0 by (cases "nat n = 0") auto
  from parse_number_digits(1)[OF _ _ this assms] digits_of_digits[of "nat n"] False
  show ?thesis
    by (simp add: toString_def decimal_value_digits_of)
qed

lemma toString_first: "toString n \<noteq> [] \<and> (hd (toString n) = 45 \<or> isDigit (hd (toString n)))"
  using digits_of_digits[of "nat n"] digits_of_digits[of "nat (- n)"]
  by (cases "digits_of (nat n)"; cases "digits_of (nat (- n))") (auto simp: toString_def)

lemma JSON_stringify_JObj:
  "JSON_stringify (JObj kvs) = [123] @ join_comma (map print_member kvs) @ [125]"
proof -
  have "print_member = (\<lambda>p. QuoteJSONString (fst p) @ 58 # JSON_stringify (snd p))"
    by (simp add: fun_eq_iff print_member_def)
  then show ?thesis
    by (simp add: case_prod_unfold)
qed

lemma value_start_simps:
  "value_start c \<Longrightarrow> \<not> isJSONWhiteSpace c \<and> c \<noteq> 93 \<and> c \<noteq> 125 \<and> c \<noteq> 44 \<and> c \<noteq> 58"
  by (auto simp: value_start_def isJSONWhiteSpace_def isDigit_def)

lemma stringify_start:
  "json_plain v \<Longrightarrow> JSON_stringify v \<noteq> [] \<and> value_start (hd (JSON_stringify v))"
proof (cases v)
  case (JNum n)
  assume "json_plain v"
  with JNum obtain k where "n = Num k" by (cases n) simp_all
  with JNum toString_first[of k] show ?thesis
    by (auto simp: value_start_def)
qed (auto simp: value_start_def js_def QuoteJSONString_def)

lemma skip_ws_id: "s \<noteq> [] \<Longrightarrow> \<not> isJSONWhiteSpace (hd s) \<Longrightarrow> skip_ws s = s"
  by (cases s) (simp_all add: skip_ws_def)

lemma skip_ws_value:
  "json_plain v \<Longrightarrow> skip_ws (JSON_stringify v @ rest) = JSON_stringify v @ rest"
  using stringify_start[of v] value_start_simps[of "hd (JSON_stringify v)"]
  by (intro skip_ws_id) auto

lemma number_end_simps: "number_end (44 # r)" "number_end (93 # r)" "number_end (125 # r)"
  "number_end []"
  by (simp_all add: number_end_def isDigit_def)

lemma parse_value_Suc:
  "parse_value (Suc n) (123 # cs) =
     (case skip_ws cs of [] \<Rightarrow> Syntax_error
      | d # r \<Rightarrow> if d = 125 then Parsed (JObj [], r) else parse_members n [] (d # r))"
  "parse_value (Suc n) (91 # cs) =
     (case skip_ws cs of [] \<Rightarrow> Syntax_error
      | d # r \<Rightarrow> if d = 93 then Parsed (JArr [], r) else parse_elements n [] (d # r))"
  "parse_value (Suc n) (34 # cs) =
     of_option (map_option (\<lambda>(str, r). (JStr str, r)) (parse_chars cs))"
  by simp_all

lemma parse_value_number:
  "c = 45 \<or> isDigit c \<Longrightarrow> parse_value (Suc n) (c # cs) = of_option (parse_number (c # cs))"
  by (auto simp: isDigit_def)

lemma parse_value_word:
  "parse_value (Suc n) (js ''null'' @ rest) = Parsed (JNull, rest)"
  "parse_value (Suc n) (js ''true'' @ rest) = Parsed (JBool True, rest)"
  "parse_value (Suc n) (js ''false'' @ rest) = Parsed (JBool False, rest)"
  by (simp_all add: js_def expect_def)

declare parse_value.simps [simp del] parse_elements.simps [simp del]
  parse_members.simps [simp del]

lemma parse_scalar:
  assumes "json_plain v" "number_end rest" "\<forall>vs. v \<noteq> JArr vs" "\<forall>kvs. v \<noteq> JObj kvs"
  shows "parse_value (Suc n) (JSON_stringify v @ rest) = Parsed (v, rest)"
proof (cases v)
  case JNull
  then show ?thesis by (simp add: parse_value_word)
next
  case (JBool b)
  then show ?thesis by (simp add: parse_value_word)
next
  case (JNum x)
  with assms(1) obtain k where k: "x = Num k" by (cases x) simp_all
  obtain c cs where c: "toString k = c # cs" "c = 45 \<or> isDigit c"
    using toString_first[of k] by (cases "toString k") auto
  have "parse_value (Suc n) (toString k @ rest) = of_option (parse_number (toString k @ rest))"
    unfolding c(1) using parse_value_number[OF c(2)] by simp
  then show ?thesis
    using parse_number_toString[OF assms(2), of k] by (simp add: JNum k of_option_def)
next
  case (JNumLit t)
  with assms(1) show ?thesis by simp
next
  case (JStr s)
  then show ?thesis
    by (simp add: QuoteJSONString_def parse_value_Suc parse_quote_units of_option_def)
next
  case (JArr vs)
  with assms(3) show ?thesis by simp
next
  case (JObj kvs)
  with assms(4) show ?thesis by simp
qed

lemma join_comma_Cons:
  "join_comma (x # xs) = x @ (if xs = [] then [] else 44 # join_comma xs)"
  by (cases xs) simp_all

lemma parse_elements_Suc:
  "parse_value n s = Parsed (v, 44 # r) \<Longrightarrow>
     parse_elements (Suc n) acc s = parse_elements n (acc @ [v]) (skip_ws r)"
  "parse_value n s = Parsed (v, 93 # r) \<Longrightarrow>
     parse_elements (Suc n) acc s = Parsed (JArr (acc @ [v]), r)"
  by (simp_all add: parse_elements.simps skip_ws_def isJSONWhiteSpace_def)

lemma parse_elements_printed:
  assumes "\<And>v rest n. v \<in> set vs \<Longrightarrow> number_end rest \<Longrightarrow> need v \<le> n \<Longrightarrow>
             parse_value n (JSON_stringify v @ rest) = Parsed (v, rest)"
    and "list_all json_plain vs" "vs \<noteq> []"
    and "sum_list (map need vs) + length vs \<le> n"
  shows "parse_elements n acc (join_comma (map JSON_stringify vs) @ 93 # rest)
         = Parsed (JArr (acc @ vs), rest)"
  using assms
proof (induction vs arbitrary: acc n)
  case Nil
  then show ?case by simp
next
  case (Cons v vs)
  from Cons.prems(4) obtain m where n: "n = Suc m" and m: "need v \<le> m"
    "sum_list (map need vs) + length vs \<le> m"
    by (cases n) auto
  show ?case
  proof (cases "vs = []")
    case True
    have "parse_value m (JSON_stringify v @ 93 # rest) = Parsed (v, 93 # rest)"
      using Cons.prems(1)[of v "93 # rest" m] m by (simp add: number_end_simps)
    from parse_elements_Suc(2)[OF this] show ?thesis
      by (simp add: True n)
  next
    case False
    let ?t = "join_comma (map JSON_stringify vs) @ 93 # rest"
    have p: "parse_value m (JSON_stringify v @ 44 # ?t) = Parsed (v, 44 # ?t)"
      using Cons.prems(1)[of v "44 # ?t" m] m by (simp add: number_end_simps)
    obtain w ws where vs: "vs = w # ws"
      using False by (cases vs) auto
    have "json_plain w"
      using Cons.prems(2) vs by simp
    then have s: "skip_ws ?t = ?t"
      unfolding vs list.map join_comma_Cons append_assoc by (rule skip_ws_value)
    have "parse_elements m (acc @ [v]) ?t = Parsed (JArr ((acc @ [v]) @ vs), rest)"
      using Cons.prems(1,2) False m by (intro Cons.IH) simp_all
    with parse_elements_Suc(1)[OF p] s show ?thesis
      using False by (simp add: n join_comma_Cons)
  qed
qed

lemma parse_members_Suc:
  assumes "parse_chars cs = Some (k, 58 # r)"
  shows "parse_value n (skip_ws r) = Parsed (v, 44 # r2) \<Longrightarrow>
     parse_members (Suc n) acc (34 # cs) = parse_members n (obj_put acc k v) (skip_ws r2)"
    and "parse_value n (skip_ws r) = Parsed (v, 125 # r2) \<Longrightarrow>
     parse_members (Suc n) acc (34 # cs) = Parsed (JObj (obj_put acc k v), r2)"
  using assms by (simp_all add: parse_members.simps skip_ws_def isJSONWhiteSpace_def)

lemma print_member_eq:
  "print_member (k, v) @ t = 34 # quote_units k @ 34 # 58 # JSON_stringify v @ t"
  by (simp add: print_member_def QuoteJSONString_def)

lemma parse_members_printed:
  assumes "\<And>k v rest n. (k, v) \<in> set kvs \<Longrightarrow> number_end rest \<Longrightarrow> need v \<le> n \<Longrightarrow>
             parse_value n (JSON_stringify v @ rest) = Parsed (v, rest)"
    and "list_all (\<lambda>(k, v). json_plain v) kvs" "kvs \<noteq> []"
    and "sum_list (map (\<lambda>(k, v). need v) kvs) + length kvs \<le> n"
  shows "parse_members n acc (join_comma (map print_member kvs) @ 125 # rest)
         = Parsed (JObj (puts acc kvs), rest)"
  using assms
proof (induction kvs arbitrary: acc n)
  case Nil
  then show ?case by simp
next
  case (Cons kv kvs)
  obtain k v where kv: "kv = (k, v)" by (cases kv)
  from Cons.prems(4) obtain m where n: "n = Suc m" and m: "need v \<le> m"
    "sum_list (map (\<lambda>(k, v). need v) kvs) + length kvs \<le> m"
    by (cases n) (auto simp: kv)
  have pv: "json_plain v"
    using Cons.prems(2) by (simp add: kv)
  show ?case
  proof (cases "kvs = []")
    case True
    let ?r = "JSON_stringify v @ 125 # rest"
    have c: "parse_chars (quote_units k @ 34 # 58 # ?r) = Some (k, 58 # ?r)"
      by (rule parse_quote_units)
    have "parse_value m (skip_ws ?r) = Parsed (v, 125 # rest)"
      using Cons.prems(1)[of k v "125 # rest" m] m skip_ws_value[OF pv, of "125 # rest"]
      by (simp add: number_end_simps kv)
    from parse_members_Suc(2)[OF c this] show ?thesis
      by (simp add: True n kv print_member_eq puts_def)
  next
    case False
    let ?t = "join_comma (map print_member kvs) @ 125 # rest"
    let ?r = "JSON_stringify v @ 44 # ?t"
    have c: "parse_chars (quote_units k @ 34 # 58 # ?r) = Some (k, 58 # ?r)"
      by (rule parse_quote_units)
    have p: "parse_value m (skip_ws ?r) = Parsed (v, 44 # ?t)"
      using Cons.prems(1)[of k v "44 # ?t" m] m skip_ws_value[OF pv, of "44 # ?t"]
      by (simp add: number_end_simps kv)
    obtain k2 v2 kvs2 where kvs: "kvs = (k2, v2) # kvs2"
      using False by (cases kvs) auto
    have s: "skip_ws ?t = ?t"
      unfolding kvs list.map join_comma_Cons append_assoc print_member_eq
      by (simp add: skip_ws_def isJSONWhiteSpace_def)
    have ih: "parse_value n' (JSON_stringify v' @ rest') = Parsed (v', rest')"
      if "(k', v') \<in> set kvs" "number_end rest'" "need v' \<le> n'" for k' v' rest' n'
      using that by (intro Cons.prems(1)[of k' v']) simp_all
    have "parse_members m (obj_put acc k v) ?t = Parsed (JObj (puts (obj_put acc k v) kvs), rest)"
      using Cons.prems(2) False m ih by (intro Cons.IH) simp_all
    with parse_members_Suc(1)[OF c p] s show ?thesis
      using False by (simp add: n kv join_comma_Cons print_member_eq puts_def)
  qed
qed

lemma obj_put_fresh:
  "k \<notin> fst ` set acc \<Longrightarrow> \<not> is_array_index k \<Longrightarrow> obj_put acc k v = acc @ [(k, v)]"
  by (induction acc) auto

lemma puts_plain:
  "distinct (map fst (acc @ kvs)) \<Longrightarrow> list_all (\<lambda>(k, v). \<not> is_array_index k) kvs \<Longrightarrow>
     puts acc kvs = acc @ kvs"
proof (induction kvs arbitrary: acc)
  case Nil
  then show ?case by (simp add: puts_def)
next
  case (Cons kv kvs)
  obtain k v where kv: "kv = (k, v)" by (cases kv)
  have "obj_put acc k v = acc @ [(k, v)]"
    using Cons.prems by (intro obj_put_fresh) (auto simp: kv)
  moreover have "puts (acc @ [(k, v)]) kvs = (acc @ [(k, v)]) @ kvs"
    using Cons.prems by (intro Cons.IH) (auto simp: kv)
  ultimately show ?case
    by (simp add: puts_def kv)
qed

lemma parse_value_array:
  "skip_ws cs = s \<Longrightarrow> s \<noteq> [] \<Longrightarrow> hd s \<noteq> 93 \<Longrightarrow>
     parse_value (Suc n) (91 # cs) = parse_elements n [] s"
  by (cases s) (simp_all add: parse_value_Suc)

lemma parse_value_object:
  "skip_ws cs = s \<Longrightarrow> s \<noteq> [] \<Longrightarrow> hd s \<noteq> 125 \<Longrightarrow>
     parse_value (Suc n) (123 # cs) = parse_members n [] s"
  by (cases s) (simp_all add: parse_value_Suc)

lemma parse_stringify:
  "json_plain v \<Longrightarrow> number_end rest \<Longrightarrow> need v \<le> n \<Longrightarrow>
     parse_value n (JSON_stringify v @ rest) = Parsed (v, rest)"
proof (induction v arbitrary: rest n)
  case (JArr vs)
  from JArr.prems(3) obtain m where n: "n = Suc m" and m: "sum_list (map need vs) + length vs \<le> m"
    by (cases n) auto
  show ?case
  proof (cases "vs = []")
    case True
    then show ?thesis
      by (simp add: n parse_value_Suc skip_ws_def isJSONWhiteSpace_def)
  next
    case False
    let ?s = "join_comma (map JSON_stringify vs) @ 93 # rest"
    obtain w ws where vs: "vs = w # ws"
      using False by (cases vs) auto
    have w: "json_plain w"
      using JArr.prems(1) vs by simp
    have s: "skip_ws ?s = ?s"
      unfolding vs list.map join_comma_Cons append_assoc using w by (rule skip_ws_value)
    have "?s \<noteq> []" "hd ?s \<noteq> 93"
      using stringify_start[OF w] value_start_simps[of "hd (JSON_stringify w)"]
      by (simp_all add: vs join_comma_Cons)
    note c = parse_value_array[OF s this, of m]
    have ih: "parse_value n' (JSON_stringify v' @ rest') = Parsed (v', rest')"
      if "v' \<in> set vs" "number_end rest'" "need v' \<le> n'" for v' rest' n'
    proof (rule JArr.IH[of v'])
      show "v' \<in> set vs" by (rule that(1))
      show "json_plain v'"
        using JArr.prems(1) that(1) by (auto simp: list_all_iff)
    qed (rule that)+
    have "parse_elements m [] ?s = Parsed (JArr ([] @ vs), rest)"
      using ih JArr.prems(1) False m by (intro parse_elements_printed) simp_all
    then show ?thesis
      by (simp add: n c)
  qed
next
  case (JObj kvs)
  from JObj.prems(3) obtain m where n: "n = Suc m"
    and m: "sum_list (map (\<lambda>(k, v). need v) kvs) + length kvs \<le> m"
    by (cases n) auto
  show ?case
  proof (cases "kvs = []")
    case True
    then show ?thesis
      by (simp add: n parse_value_Suc skip_ws_def isJSONWhiteSpace_def)
  next
    case False
    let ?s = "join_comma (map print_member kvs) @ 125 # rest"
    obtain k v kvs2 where kvs: "kvs = (k, v) # kvs2"
      using False by (cases kvs) auto
    have s: "skip_ws ?s = ?s" "?s \<noteq> []" "hd ?s \<noteq> 125"
      unfolding kvs list.map join_comma_Cons append_assoc print_member_eq
      by (simp_all add: skip_ws_def isJSONWhiteSpace_def)
    note c = parse_value_object[OF s, of m]
    have ih: "parse_value n' (JSON_stringify v' @ rest') = Parsed (v', rest')"
      if "(k', v') \<in> set kvs" "number_end rest'" "need v' \<le> n'" for k' v' rest' n'
    proof (rule JObj.IH[of "(k', v')" v'])
      show "(k', v') \<in> set kvs" by (rule that(1))
      show "v' \<in> Basic_BNFs.snds (k', v')" by simp
      show "json_plain v'"
        using JObj.prems(1) that(1) by (auto simp: list_all_iff)
    qed (rule that)+
    have pl: "list_all (\<lambda>(k, v). json_plain v) kvs"
      using JObj.prems(1) by (auto simp: list_all_iff)
    have "parse_members m [] ?s = Parsed (JObj (puts [] kvs), rest)"
      using ih pl False m by (intro parse_members_printed) simp_all
    moreover have "puts [] kvs = [] @ kvs"
      using JObj.prems(1) by (intro puts_plain) (auto simp: list_all_iff)
    ultimately show ?thesis
      unfolding JSON_stringify_JObj by (simp add: n c)
  qed
next
  case (JNumLit t)
  then show ?case by simp
next
  case JNull
  then obtain m where "n = Suc m" by (cases n) auto
  with JNull parse_scalar[of JNull rest m] show ?case by simp
next
  case (JBool b)
  then obtain m where "n = Suc m" by (cases n) auto
  with JBool parse_scalar[of "JBool b" rest m] show ?case by simp
next
  case (JNum x)
  then obtain m where "n = Suc m" by (cases n) auto
  with JNum parse_scalar[of "JNum x" rest m] show ?case by simp
next
  case (JStr x)
  then obtain m where "n = Suc m" by (cases n) auto
  with JStr parse_scalar[of "JStr x" rest m] show ?case by simp
qed

lemma length_join_comma:
  "xs \<noteq> [] \<Longrightarrow> length (join_comma xs) + 1 = sum_list (map length xs) + length xs"
  by (induction xs rule: join_comma.induct) simp_all

lemma need_le_length: "json_plain v \<Longrightarrow> need v \<le> length (JSON_stringify v)"
proof (induction v)
  case (JArr vs)
  show ?case
  proof (cases "vs = []")
    case True
    then show ?thesis by simp
  next
    case False
    have "sum_list (map need vs) \<le> sum_list (map (length \<circ> JSON_stringify) vs)"
      using JArr by (intro sum_list_mono) (auto simp: list_all_iff)
    moreover have "length (join_comma (map JSON_stringify vs)) + 1
        = sum_list (map (length \<circ> JSON_stringify) vs) + length vs"
      using length_join_comma[of "map JSON_stringify vs"] False by (simp add: comp_def)
    ultimately show ?thesis by simp
  qed
next
  case (JObj kvs)
  show ?case
  proof (cases "kvs = []")
    case True
    then show ?thesis by simp
  next
    case False
    have "(case kv of (k, v) \<Rightarrow> need v) \<le> length (print_member kv)" if "kv \<in> set kvs" for kv
    proof -
      obtain k v where kv: "kv = (k, v)" by (cases kv)
      have "need v \<le> length (JSON_stringify v)"
        using JObj.IH[of kv v] JObj.prems that by (auto simp: kv list_all_iff)
      then show ?thesis by (simp add: kv print_member_def)
    qed
    then have "sum_list (map (\<lambda>(k, v). need v) kvs)
        \<le> sum_list (map (length \<circ> print_member) kvs)"
      by (intro sum_list_mono) simp
    moreover have "length (join_comma (map print_member kvs)) + 1
        = sum_list (map (length \<circ> print_member) kvs) + length kvs"
      using length_join_comma[of "map print_member kvs"] False by (simp add: comp_def)
    ultimately show ?thesis
      unfolding JSON_stringify_JObj by simp
  qed
next
  case (JNum x)
  then obtain k where "x = Num k" by (cases x) simp_all
  then show ?case
    using toString_first[of k] by (cases "toString k") simp_all
qed (simp_all add: js_def QuoteJSONString_def)

theorem JSON_parse_stringify: "json_plain v \<Longrightarrow> JSON_parse (JSON_stringify v) = Some v"
proof -
  assume p: "json_plain v"
  let ?s = "JSON_stringify v"
  have "need v \<le> 2 * length ?s + 2"
    using need_le_length[OF p] by simp
  from parse_stringify[OF p _ this, of "[]"] skip_ws_value[OF p, of "[]"]
  show ?thesis
    by (simp add: JSON_parse_def number_end_simps skip_ws_def)
qed

lemma prepend_Some:
  "prepend c r = Some (str, rest) \<Longrightarrow> \<exists>str'. r = Some (str', rest)"
  by (cases r) (auto simp: prepend_def)

lemma parse_chars_step:
  assumes "parse_chars (c # cs) = Some (str, r)"
  shows "(c = 34 \<and> r = cs) \<or> (\<exists>t str'. parse_chars t = Some (str', r) \<and> length t \<le> length cs)"
proof (cases "c = 34")
  case True
  with assms show ?thesis by (simp add: parse_chars.simps)
next
  case q: False
  show ?thesis
  proof (cases "c = 92")
    case False
    with q assms have "prepend c (parse_chars cs) = Some (str, r)"
      by (simp add: parse_chars.simps split: if_splits)
    from prepend_Some[OF this] show ?thesis by auto
  next
    case b: True
    then obtain e cs1 where cs: "cs = e # cs1"
      using assms q by (cases cs) (auto simp: parse_chars.simps)
    show ?thesis
    proof (cases "e = 117")
      case False
      with b q cs assms obtain u where "prepend u (parse_chars cs1) = Some (str, r)"
        by (auto simp: parse_chars.simps split: option.splits)
      from prepend_Some[OF this] show ?thesis by (auto simp: cs)
    next
      case u: True
      with b q cs assms obtain h1 h2 h3 h4 cs2 x where
        cs1: "cs1 = h1 # h2 # h3 # h4 # cs2"
        and r: "prepend x (parse_chars cs2) = Some (str, r)"
        by (auto simp: parse_chars.simps split: list.splits option.splits)
      from prepend_Some[OF r] show ?thesis by (auto simp: cs cs1)
    qed
  qed
qed

lemma parse_chars_shorter: "parse_chars s = Some (str, r) \<Longrightarrow> length r < length s"
proof (induction "length s" arbitrary: s str rule: less_induct)
  case less
  show ?case
  proof (cases s)
    case Nil
    with less.prems show ?thesis by (simp add: parse_chars.simps)
  next
    case (Cons c cs)
    from parse_chars_step[OF less.prems[unfolded Cons]] show ?thesis
    proof
      assume "c = 34 \<and> r = cs"
      then show ?thesis by (simp add: Cons)
    next
      assume "\<exists>t str'. parse_chars t = Some (str', r) \<and> length t \<le> length cs"
      then obtain t str' where t: "parse_chars t = Some (str', r)" "length t \<le> length cs"
        by blast
      then have "length r < length t"
        by (intro less.hyps[of t str']) (simp_all add: Cons)
      with t(2) show ?thesis by (simp add: Cons)
    qed
  qed
qed

lemma integer_part_length: "length (integer_part s) \<le> length s"
  by (cases s) (auto simp: integer_part_def intro: le_trans[OF length_takeWhile_le])

lemma parse_number_shorter:
  assumes "parse_number s = Some (v, r)"
  shows "length r < length s"
proof (cases "s \<noteq> [] \<and> hd s = 45")
  case True
  then have sg: "(if s \<noteq> [] \<and> hd s = 45 then [45::nat] else []) = [45]"
    by simp
  from assms have "length r \<le> length s - 1"
    unfolding parse_number_def Let_def sg by (auto split: if_splits)
  with True show ?thesis
    by (cases s) simp_all
next
  case False
  then have sg: "(if s \<noteq> [] \<and> hd s = 45 then [45::nat] else []) = []"
    by simp
  from assms have d: "integer_part s \<noteq> []"
    unfolding parse_number_def Let_def sg by (auto split: if_splits)
  from assms have "length r \<le> length s - length (integer_part s)"
    unfolding parse_number_def Let_def sg by (auto split: if_splits)
  moreover have "0 < length (integer_part s)"
    using d by simp
  moreover have "length (integer_part s) \<le> length s"
    by (rule integer_part_length)
  ultimately show ?thesis
    by linarith
qed

lemma expect_shorter: "word \<noteq> [] \<Longrightarrow> expect word v s = Parsed (v', r) \<Longrightarrow> length r < length s"
  by (cases "s = []") (auto simp: expect_def split: if_splits)

lemma skip_ws_length: "length (skip_ws s) \<le> length s"
  by (simp add: skip_ws_def length_dropWhile_le)

lemma skip_ws_Cons_length: "skip_ws s = d # r \<Longrightarrow> length r < length s"
  using skip_ws_length[of s] by simp

lemma consumes_value:
  assumes "consumes n" "parse_value (Suc n) s = Parsed (v, r)"
  shows "length r < length s"
proof (cases s)
  case Nil
  with assms(2) show ?thesis by (simp add: parse_value.simps)
next
  case (Cons c cs)
  consider (obj) "c = 123" | (arr) "c = 91" | (str) "c = 34"
    | (word) "c = 116 \<or> c = 102 \<or> c = 110" | (num) "c \<noteq> 123" "c \<noteq> 91" "c \<noteq> 34"
      "c \<noteq> 116" "c \<noteq> 102" "c \<noteq> 110"
    by blast
  then show ?thesis
  proof cases
    case obj
    show ?thesis
    proof (cases "skip_ws cs")
      case Nil
      with assms(2) obj Cons show ?thesis by (simp add: parse_value.simps)
    next
      case (Cons d r0)
      note sk = skip_ws_Cons_length[OF Cons]
      show ?thesis
      proof (cases "d = 125")
        case True
        with assms(2) obj \<open>s = c # cs\<close> Cons sk show ?thesis
          by (simp add: parse_value.simps)
      next
        case False
        with assms(2) obj \<open>s = c # cs\<close> Cons have "parse_members n [] (d # r0) = Parsed (v, r)"
          by (simp add: parse_value.simps)
        with assms(1) have "length r < length (d # r0)"
          unfolding consumes_def by blast
        with sk \<open>s = c # cs\<close> show ?thesis by simp
      qed
    qed
  next
    case arr
    show ?thesis
    proof (cases "skip_ws cs")
      case Nil
      with assms(2) arr Cons show ?thesis by (simp add: parse_value.simps)
    next
      case (Cons d r0)
      note sk = skip_ws_Cons_length[OF Cons]
      show ?thesis
      proof (cases "d = 93")
        case True
        with assms(2) arr \<open>s = c # cs\<close> Cons sk show ?thesis
          by (simp add: parse_value.simps)
      next
        case False
        with assms(2) arr \<open>s = c # cs\<close> Cons have "parse_elements n [] (d # r0) = Parsed (v, r)"
          by (simp add: parse_value.simps)
        with assms(1) have "length r < length (d # r0)"
          unfolding consumes_def by blast
        with sk \<open>s = c # cs\<close> show ?thesis by simp
      qed
    qed
  next
    case str
    with assms(2) Cons obtain t where "parse_chars cs = Some (t, r)"
      by (auto simp: parse_value.simps of_option_def split: option.splits)
    from parse_chars_shorter[OF this] Cons show ?thesis by simp
  next
    case word
    with assms(2) Cons have
      "expect (js ''true'') (JBool True) s = Parsed (v, r)
       \<or> expect (js ''false'') (JBool False) s = Parsed (v, r)
       \<or> expect (js ''null'') JNull s = Parsed (v, r)"
      by (auto simp: parse_value.simps)
    then show ?thesis
      by (auto dest!: expect_shorter[rotated] simp: js_def)
  next
    case num
    with assms(2) Cons have "parse_number s = Some (v, r)"
      by (auto simp: parse_value.simps of_option_def split: option.splits)
    then show ?thesis by (rule parse_number_shorter)
  qed
qed

lemma consumes_elements:
  assumes "consumes n" "parse_elements (Suc n) acc s = Parsed (v, r)"
  shows "length r < length s"
proof -
  from assms(2) obtain v1 r1 where p: "parse_value n s = Parsed (v1, r1)"
    by (auto simp: parse_elements.simps split: parse_result.splits)
  with assms(1) have l1: "length r1 < length s"
    unfolding consumes_def by blast
  from assms(2) p obtain d r2 where sk: "skip_ws r1 = d # r2"
    by (cases "skip_ws r1") (auto simp: parse_elements.simps)
  note l2 = skip_ws_Cons_length[OF sk]
  show ?thesis
  proof (cases "d = 44")
    case True
    with assms(2) p sk have "parse_elements n (acc @ [v1]) (skip_ws r2) = Parsed (v, r)"
      by (simp add: parse_elements.simps)
    with assms(1) have "length r < length (skip_ws r2)"
      unfolding consumes_def by blast
    with skip_ws_length[of r2] l1 l2 show ?thesis by linarith
  next
    case False
    with assms(2) p sk have "r = r2"
      by (simp add: parse_elements.simps split: if_splits)
    with l1 l2 show ?thesis by simp
  qed
qed

lemma consumes_members:
  assumes "consumes n" "parse_members (Suc n) acc s = Parsed (v, r)"
  shows "length r < length s"
proof -
  from assms(2) obtain cs where s: "s = 34 # cs"
    by (cases s) (auto simp: parse_members.simps split: if_splits)
  from assms(2) s obtain k r0 where c: "parse_chars cs = Some (k, r0)"
    by (auto simp: parse_members.simps split: option.splits)
  note l0 = parse_chars_shorter[OF c]
  from assms(2) s c obtain d r1 where sk1: "skip_ws r0 = d # r1"
    by (cases "skip_ws r0") (auto simp: parse_members.simps)
  note l1 = skip_ws_Cons_length[OF sk1]
  from assms(2) s c sk1 have d: "d = 58"
    by (auto simp: parse_members.simps split: if_splits)
  from assms(2) s c sk1 d obtain v1 r2 where p: "parse_value n (skip_ws r1) = Parsed (v1, r2)"
    by (auto simp: parse_members.simps split: parse_result.splits)
  with assms(1) have l2: "length r2 < length (skip_ws r1)"
    unfolding consumes_def by blast
  from assms(2) s c sk1 d p obtain e r3 where sk3: "skip_ws r2 = e # r3"
    by (cases "skip_ws r2") (auto simp: parse_members.simps)
  note l3 = skip_ws_Cons_length[OF sk3]
  have base: "length r3 < length s"
    using l0 l1 l2 l3 skip_ws_length[of r1] by (simp add: s)
  show ?thesis
  proof (cases "e = 44")
    case True
    with assms(2) s c sk1 d p sk3
    have "parse_members n (obj_put acc k v1) (skip_ws r3) = Parsed (v, r)"
      by (simp add: parse_members.simps)
    with assms(1) have "length r < length (skip_ws r3)"
      unfolding consumes_def by blast
    with skip_ws_length[of r3] base show ?thesis by linarith
  next
    case False
    with assms(2) s c sk1 d p sk3 have "r = r3"
      by (simp add: parse_members.simps split: if_splits)
    with base show ?thesis by simp
  qed
qed

lemma parse_consumes: "consumes n"
proof (induction n)
  case 0
  show ?case
    by (simp add: consumes_def parse_value.simps parse_elements.simps parse_members.simps)
next
  case (Suc n)
  show ?case
    unfolding consumes_def
    using consumes_value[OF Suc] consumes_elements[OF Suc] consumes_members[OF Suc]
    by blast
qed

lemma of_option_fuel: "of_option x \<noteq> Out_of_fuel"
  by (cases x) (simp_all add: of_option_def)

lemma expect_fuel: "expect w v s \<noteq> Out_of_fuel"
  by (simp add: expect_def)

lemma enough_value:
  assumes "enough n" "2 * length s < Suc n"
  shows "parse_value (Suc n) s \<noteq> Out_of_fuel"
proof (cases s)
  case Nil
  then show ?thesis by (simp add: parse_value.simps)
next
  case (Cons c cs)
  have sub: "2 * length t + 1 < n" if "skip_ws cs = t" "t \<noteq> []" for t
    using assms(2) skip_ws_length[of cs] that Cons by (cases t) auto
  show ?thesis
  proof (cases "skip_ws cs")
    case Nil
    then show ?thesis
      using Cons by (simp add: parse_value.simps of_option_fuel expect_fuel)
  next
    case sk: (Cons d r)
    from sub[OF sk] have "2 * length (d # r) + 1 < n" by simp
    with assms(1) have "parse_elements n [] (d # r) \<noteq> Out_of_fuel"
      "parse_members n [] (d # r) \<noteq> Out_of_fuel"
      unfolding enough_def by blast+
    then show ?thesis
      using Cons sk by (auto simp: parse_value.simps of_option_fuel expect_fuel)
  qed
qed

lemma enough_elements:
  assumes "enough n" "2 * length s + 1 < Suc n"
  shows "parse_elements (Suc n) acc s \<noteq> Out_of_fuel"
proof (cases "parse_value n s")
  case Out_of_fuel
  with assms show ?thesis
    unfolding enough_def by auto
next
  case Syntax_error
  then show ?thesis by (simp add: parse_elements.simps)
next
  case (Parsed x)
  obtain v r where x: "x = (v, r)" by (cases x)
  have l: "length r < length s"
    using parse_consumes[of n] Parsed x unfolding consumes_def by blast
  show ?thesis
  proof (cases "skip_ws r")
    case Nil
    with Parsed x show ?thesis by (simp add: parse_elements.simps)
  next
    case (Cons d r1)
    from skip_ws_Cons_length[OF Cons] skip_ws_length[of r1] l assms(2)
    have "2 * length (skip_ws r1) + 1 < n" by linarith
    with assms(1) have "parse_elements n (acc @ [v]) (skip_ws r1) \<noteq> Out_of_fuel"
      unfolding enough_def by blast
    with Parsed x Cons show ?thesis by (simp add: parse_elements.simps)
  qed
qed

lemma enough_members:
  assumes "enough n" "2 * length s + 1 < Suc n"
  shows "parse_members (Suc n) acc s \<noteq> Out_of_fuel"
proof (cases s)
  case Nil
  then show ?thesis by (simp add: parse_members.simps)
next
  case (Cons q cs)
  show ?thesis
  proof (cases "q = 34")
    case False
    with Cons show ?thesis by (simp add: parse_members.simps)
  next
    case True
    show ?thesis
    proof (cases "parse_chars cs")
      case None
      with Cons True show ?thesis by (simp add: parse_members.simps)
    next
      case (Some x)
      obtain k r where x: "x = (k, r)" by (cases x)
      note l0 = parse_chars_shorter[OF Some[unfolded x]]
      show ?thesis
      proof (cases "skip_ws r")
        case Nil
        with Cons True Some x show ?thesis by (simp add: parse_members.simps)
      next
        case sk1: (Cons d r1)
        note l1 = skip_ws_Cons_length[OF sk1]
        show ?thesis
        proof (cases "d = 58")
          case False
          with Cons True Some x sk1 show ?thesis by (simp add: parse_members.simps)
        next
          case d: True
          have "2 * length (skip_ws r1) < n"
            using l0 l1 skip_ws_length[of r1] assms(2) Cons by simp
          with assms(1) have nf: "parse_value n (skip_ws r1) \<noteq> Out_of_fuel"
            unfolding enough_def by blast
          show ?thesis
          proof (cases "parse_value n (skip_ws r1)")
            case Out_of_fuel
            with nf show ?thesis by simp
          next
            case Syntax_error
            with Cons True Some x sk1 d show ?thesis by (simp add: parse_members.simps)
          next
            case (Parsed y)
            obtain v r2 where y: "y = (v, r2)" by (cases y)
            have l2: "length r2 < length (skip_ws r1)"
              using parse_consumes[of n] Parsed y unfolding consumes_def by blast
            show ?thesis
            proof (cases "skip_ws r2")
              case Nil
              with Cons True Some x sk1 d Parsed y show ?thesis
                by (simp add: parse_members.simps)
            next
              case sk3: (Cons e r3)
              from skip_ws_Cons_length[OF sk3] skip_ws_length[of r3] skip_ws_length[of r1]
                l0 l1 l2 assms(2) \<open>s = q # cs\<close>
              have "2 * length (skip_ws r3) + 1 < n" by simp
              with assms(1) have "parse_members n (obj_put acc k v) (skip_ws r3) \<noteq> Out_of_fuel"
                unfolding enough_def by blast
              with \<open>s = q # cs\<close> True Some x sk1 d Parsed y sk3 show ?thesis
                by (simp add: parse_members.simps)
            qed
          qed
        qed
      qed
    qed
  qed
qed

lemma parse_enough: "enough n"
proof (induction n)
  case 0
  show ?case by (simp add: enough_def)
next
  case (Suc n)
  show ?case
    unfolding enough_def
    using enough_value[OF Suc] enough_elements[OF Suc] enough_members[OF Suc]
    by blast
qed

theorem parse_fuel_enough:
  "parse_value (2 * length s + 2) (skip_ws s) \<noteq> Out_of_fuel"
proof -
  have "2 * length (skip_ws s) < 2 * length s + 2"
    using skip_ws_length[of s] by simp
  with parse_enough[of "2 * length s + 2"] show ?thesis
    unfolding enough_def by blast
qed

section \<open>Saving and loading\<close>

lemma stringify_stored_timestamp: "JSON_stringify (stored_timestamp t) = JSON_stringify (JNum t)"
  by (cases t) (simp_all add: stored_timestamp_def)

lemma stringify_stored_memory: "JSON_stringify (stored_memory m) = JSON_stringify (js_of_memory m)"
  by (simp add: stored_memory_def js_of_memory_def stringify_stored_timestamp)

lemma stringify_stored_memories:
  "JSON_stringify (JArr (map stored_memory ms)) = JSON_stringify (js_of_memories ms)"
  by (simp add: js_of_memories_def stringify_stored_memory comp_def)

lemma key_not_index:
  "\<not> is_array_index (js ''id'')" "\<not> is_array_index (js ''content'')"
  "\<not> is_array_index (js ''moodScore'')" "\<not> is_array_index (js ''moodTags'')"
  "\<not> is_array_index (js ''timestamp'')" "\<not> is_array_index (js ''song'')"
  "\<not> is_array_index (js ''analysis'')" "\<not> is_array_index (js ''imageUrl'')"
  "\<not> is_array_index (js ''userFeedback'')" "\<not> is_array_index (js ''language'')"
  "\<not> is_array_index (js ''title'')" "\<not> is_array_index (js ''artist'')"
  "\<not> is_array_index (js ''inferredEmotion'')" "\<not> is_array_index (js ''analysisText'')"
  "\<not> is_array_index (js ''moodColor'')" "\<not> is_array_index (js ''imagePrompt'')"
  by (simp_all add: is_array_index_def js_def isDigit_def)

lemma json_plain_parts:
  "json_plain (js_of_song s)" "json_plain (js_of_analysis a)" "json_plain (js_of_feedback f)"
  "json_plain (js_of_language l)" "json_plain (stored_timestamp t)"
  "json_plain (JArr (map JStr tags))"
proof -
  show "json_plain (js_of_song s)"
    by (simp add: js_of_song_def key_not_index) (simp add: js_def)
  show "json_plain (js_of_analysis a)"
    by (simp add: js_of_analysis_def key_not_index) (simp add: js_def)
  show "json_plain (js_of_feedback f)"
    by (simp add: js_of_feedback_def split: option.splits feedback.splits)
  show "json_plain (js_of_language l)"
    by (simp add: js_of_language_def)
  show "json_plain (stored_timestamp t)"
    by (cases t) (simp_all add: stored_timestamp_def)
  show "json_plain (JArr (map JStr tags))"
    by (simp add: list_all_iff)
qed

lemma memory_keys_distinct:
  "distinct [js ''id'', js ''content'', js ''moodScore'', js ''moodTags'', js ''timestamp'',
     js ''song'', js ''analysis'', js ''imageUrl'', js ''userFeedback'', js ''language'']"
  by (simp add: js_def)

lemma json_plain_tags: "list_all json_plain (map JStr tags)"
  by (simp add: list_all_iff)

lemma json_plain_stored_memory: "json_plain (stored_memory m)"
  using memory_keys_distinct
  by (simp add: stored_memory_def key_not_index json_plain_parts json_plain_tags
      del: distinct.simps)

lemma json_plain_stored_memories: "json_plain (JArr (map stored_memory ms))"
  by (simp add: list_all_iff json_plain_stored_memory)

lemma JSON_parse_memories:
  "JSON_parse (JSON_stringify (js_of_memories ms)) = Some (JArr (map stored_memory ms))"
  using JSON_parse_stringify[OF json_plain_stored_memories[of ms]]
  by (simp only: stringify_stored_memories)

lemma stringify_nonempty: "JSON_stringify (js_of_memories ms) \<noteq> []"
  by (simp add: js_of_memories_def)

lemma load_saved: "load (Some (JSON_stringify (js_of_memories ms))) = (JArr (map stored_memory ms), [])"
  by (simp add: load_def stringify_nonempty JSON_parse_memories)

lemma stored_memory_valid: "timestamp m \<noteq> NaN \<Longrightarrow> stored_memory m = js_of_memory m"
  by (cases "timestamp m") (simp_all add: stored_memory_def js_of_memory_def stored_timestamp_def)

lemma stored_memory_invalid: "timestamp m = NaN \<Longrightarrow> stored_memory m \<noteq> js_of_memory m"
  by (simp add: stored_memory_def js_of_memory_def stored_timestamp_def)

lemma js_of_language_inj: "js_of_language a = js_of_language b \<longleftrightarrow> a = b"
  by (cases a; cases b) (simp_all add: js_of_language_def js_def)

lemma js_of_feedback_inj: "js_of_feedback a = js_of_feedback b \<longleftrightarrow> a = b"
proof -
  have "js_of_feedback a = js_of_feedback b \<Longrightarrow> a = b"
    by (cases a; cases b)
       (auto simp: js_of_feedback_def js_def split: feedback.splits)
  then show ?thesis by blast
qed

lemma js_of_song_inj: "js_of_song a = js_of_song b \<longleftrightarrow> a = b"
  by (cases a; cases b) (auto simp: js_of_song_def)

lemma js_of_analysis_inj: "js_of_analysis a = js_of_analysis b \<longleftrightarrow> a = b"
  by (cases a; cases b) (auto simp: js_of_analysis_def)

lemma map_JStr_inj: "map JStr a = map JStr b \<longleftrightarrow> a = b"
proof -
  have "inj JStr" by (rule injI) simp
  then show ?thesis by (rule inj_map_eq_map)
qed

lemma js_of_memory_inj: "js_of_memory a = js_of_memory b \<longleftrightarrow> a = b"
  by (cases a; cases b)
     (auto simp: js_of_memory_def js_of_language_inj js_of_feedback_inj js_of_song_inj
        js_of_analysis_inj map_JStr_inj)

lemma js_of_memories_inj: "js_of_memories a = js_of_memories b \<longleftrightarrow> a = b"
proof -
  have "inj js_of_memory" by (rule injI) (simp add: js_of_memory_inj)
  then show ?thesis by (simp add: js_of_memories_def inj_map_eq_map)
qed

lemma storage_saveMemories:
  "storage (fst (saveMemories False ms st)) = Some (JSON_stringify (js_of_memories ms))"
  by (simp add: saveMemories_def)

lemma stored_memories_valid: "valid_times ms \<Longrightarrow> map stored_memory ms = map js_of_memory ms"
  by (simp add: valid_times_def list_all_iff stored_memory_valid)

text \<open>
  C7 (as amended). For every list of memories whose time stamps are all valid (none is
  \<open>NaN\<close>), writing the list to the storage slot with \<open>saveMemories\<close> and loading the slot
  gives the run-time value of that list, with nothing logged; and that value is the value
  of no other list, so the records and their order are the same.
\<close>

theorem load_after_save:
  assumes "valid_times ms"
  shows "load (storage (fst (saveMemories False ms st))) = (js_of_memories ms, [])
       \<and> (\<forall>ms'. fst (load (storage (fst (saveMemories False ms st)))) = js_of_memories ms'
              \<longrightarrow> ms' = ms)"
proof -
  have "JArr (map stored_memory ms) = js_of_memories ms"
    using stored_memories_valid[OF assms] by (simp add: js_of_memories_def)
  with load_saved[of ms] have "load (storage (fst (saveMemories False ms st))) = (js_of_memories ms, [])"
    by (simp only: storage_saveMemories)
  then show ?thesis
    by (simp add: js_of_memories_inj)
qed

lemma cleared_date_run:
  "memories (handleAnalyze (example_world 1717200000000) (example_state []))
     = [created (example_world 1717200000000) (example_state [])]"
  "storage (handleAnalyze (example_world 1717200000000) (example_state []))
     = Some (JSON_stringify (js_of_memories
         [created (example_world 1717200000000) (example_state [])]))"
  "timestamp (created (example_world 1717200000000) (example_state [])) = NaN"
proof -
  let ?w = "example_world 1717200000000" and ?st = "example_state []"
  have t: "\<not> setItem_throws ?w"
    by (simp add: example_world_def)
  show "memories (handleAnalyze ?w ?st) = [created ?w ?st]"
    "storage (handleAnalyze ?w ?st) = Some (JSON_stringify (js_of_memories [created ?w ?st]))"
    unfolding handleAnalyze_saved[OF example_state_guard example_world_reply(1) t]
    by (simp_all add: example_state_fields sort_js_single)
  show "timestamp (created ?w ?st) = NaN"
    by (simp add: timestamp_created example_state_fields targetDate_examples)
qed

text \<open>
  For arbitrary lists the claim fails: the record created with the date field cleared has
  the time stamp \<open>NaN\<close>; the slot then holds \<open>"timestamp":null\<close>, and the loaded list
  differs from the list that was saved.
\<close>

theorem reload_counterexample:
  "storage (handleAnalyze (example_world 1717200000000) (example_state []))
     = Some (JSON_stringify (js_of_memories
         (memories (handleAnalyze (example_world 1717200000000) (example_state [])))))
   \<and> fst (load (storage (handleAnalyze (example_world 1717200000000) (example_state []))))
     = JArr [stored_memory (created (example_world 1717200000000) (example_state []))]
   \<and> fst (load (storage (handleAnalyze (example_world 1717200000000) (example_state []))))
     \<noteq> js_of_memories (memories (handleAnalyze (example_world 1717200000000) (example_state [])))"
  using stored_memory_invalid[OF cleared_date_run(3)]
  by (simp add: cleared_date_run load_saved) (simp add: js_of_memories_def)

text \<open>
  A list of one record dated 1 May 2024.
\<close>

theorem load_after_save_witness:
  "load (storage (fst (saveMemories False
       [created (example_world 1717200000000) (example_state (js ''2024-05-01''))]
       (example_state (js ''2024-05-01'')))))
   = (js_of_memories [created (example_world 1717200000000) (example_state (js ''2024-05-01''))],
      [])"
proof -
  have "valid_times [created (example_world 1717200000000) (example_state (js ''2024-05-01''))]"
    by (simp add: valid_times_def timestamp_created example_state_fields targetDate_examples)
  from load_after_save[OF this] show ?thesis
    by blast
qed

lemmas parse_defs = JSON_parse_def skip_ws_def isJSONWhiteSpace_def js_def numeral_eq_Suc
  parse_number_def integer_part_def fraction_part_def exponent_part_def isDigit_def
  decimal_value_def of_option_def expect_def Let_def hexval_def unescape_def prepend_def
  is_array_index_def parse_value.simps parse_elements.simps parse_members.simps
  parse_chars.simps

lemma JSON_parse_examples:
  "JSON_parse [] = None"
  "JSON_parse (js ''{bad'') = None"
  "JSON_parse (js ''42'') = Some (JNum (Num 42))"
  "JSON_parse [91, 123, 34, 105, 100, 34, 58, 34, 49, 34, 125, 93]
     = Some (JArr [JObj [(js ''id'', JStr (js ''1''))]])"
  by (simp_all add: parse_defs)

text \<open>
  C8 (as amended). At start, an absent slot gives the empty list, and so does a slot that
  holds the empty string, in both cases with nothing logged (the effect tests
  \<open>if (saved)\<close>, and the empty string is falsy). A slot that holds a non-empty string
  that cannot be parsed gives the empty list and one logged error. The exception of
  \<open>JSON.parse\<close> is caught in every case: \<open>load\<close> always returns.
\<close>

theorem load_fails_soft:
  "load None = (JArr [], [])
   \<and> load (Some []) = (JArr [], [])
   \<and> (s \<noteq> [] \<and> JSON_parse s = None \<longrightarrow> load (Some s) = (JArr [], [Console_error]))"
  by (simp add: load_def)

text \<open>
  The stored text \<open>{bad\<close>.
\<close>

theorem load_fails_soft_witness:
  "load (Some (js ''{bad'')) = (JArr [], [Console_error])"
proof -
  have "js ''{bad'' \<noteq> []" by (simp add: js_def)
  with load_fails_soft[of "js ''{bad''"] JSON_parse_examples(2) show ?thesis
    by blast
qed

text \<open>
  The claim that unparsable content is logged fails for the empty string, which
  \<open>JSON.parse\<close> rejects: the effect does not parse it and logs nothing.
\<close>

theorem empty_string_not_logged_counterexample:
  "JSON_parse [] = None \<and> load (Some []) = (JArr [], [])"
  by (simp add: JSON_parse_examples load_def)

text \<open>
  C10. The effect validates nothing beyond parsing: for every stored string that parses
  as JSON, the parsed value becomes the list of memories as it is, whatever its shape,
  and nothing is logged; the empty list is the result only when the string does not
  parse.
\<close>

theorem load_adopts_parsed_value:
  "(JSON_parse s = Some v \<longrightarrow> load (Some s) = (v, []))
   \<and> fst (load (Some s)) = (case JSON_parse s of Some v \<Rightarrow> v | None \<Rightarrow> JArr [])"
  by (cases "s = []") (auto simp: load_def JSON_parse_examples split: option.splits)

text \<open>
  The stored texts \<open>42\<close> (a number) and \<open>[{"id":"1"}]\<close> (an object without the fields
  of a memory).
\<close>

theorem load_adopts_parsed_value_witness:
  "load (Some (js ''42'')) = (JNum (Num 42), [])
   \<and> load (Some [91, 123, 34, 105, 100, 34, 58, 34, 49, 34, 125, 93])
       = (JArr [JObj [(js ''id'', JStr (js ''1''))]], [])"
  using load_adopts_parsed_value[of "js ''42''" "JNum (Num 42)"]
    load_adopts_parsed_value[of "[91, 123, 34, 105, 100, 34, 58, 34, 49, 34, 125, 93]"
      "JArr [JObj [(js ''id'', JStr (js ''1''))]]"]
    JSON_parse_examples
  by blast

end
